theory Spec2Isabelle
  imports Main "HOL-Library.Word" "HOL-Library.Monad_Syntax" "HOL-Library.Sublist"
begin

section \<open>Strings and option values of the host language\<close>

text \<open>
  A JavaScript string is a sequence of UTF-16 code units; \<open>s.length\<close> counts code units
  and \<open>Array.from(s)\<close> splits \<open>s\<close> into code points, each a string of one code unit or of
  a surrogate pair. Strings are therefore lists of 16-bit words, and a "character" of the
  tokenizer is itself a short string. \<open>js\<close> embeds an ASCII literal.
\<close>

type_synonym jsstring = "16 word list"

definition js :: "string \<Rightarrow> jsstring" where
  "js s = map of_char s"

abbreviation LF :: "16 word" where "LF \<equiv> 0x0A"
abbreviation CR :: "16 word" where "CR \<equiv> 0x0D"
abbreviation NUL :: "16 word" where "NUL \<equiv> 0x00"
abbreviation SP :: "16 word" where "SP \<equiv> 0x20"
abbreviation DQUOTE :: "16 word" where "DQUOTE \<equiv> 0x22"
abbreviation COMMA :: "16 word" where "COMMA \<equiv> 0x2C"

definition is_high :: "16 word \<Rightarrow> bool" where
  "is_high u \<longleftrightarrow> 0xD800 \<le> u \<and> u \<le> 0xDBFF"

definition is_low :: "16 word \<Rightarrow> bool" where
  "is_low u \<longleftrightarrow> 0xDC00 \<le> u \<and> u \<le> 0xDFFF"

text \<open>\<open>Array.from(string)\<close>: the string iterator pairs a high surrogate with the low
  surrogate that follows it; every other code unit is a character of its own.\<close>

fun Array_from :: "jsstring \<Rightarrow> jsstring list" where
  "Array_from [] = []"
| "Array_from [u] = [[u]]"
| "Array_from (u # v # us) =
     (if is_high u \<and> is_low v then [u, v] # Array_from us else [u] # Array_from (v # us))"

text \<open>The values an option may hold: \<open>undefined\<close> (the destructuring default applies),
  a string, an array, or anything else (numbers, booleans, \<open>null\<close>, plain objects).\<close>

datatype jsvalue = JUndefined | JString jsstring | JArray "jsvalue list" | JOther

fun maxSingleChar :: "jsvalue \<Rightarrow> bool" where
  "maxSingleChar (JString element) = (length element \<le> 1)"
| "maxSingleChar _ = False"

fun string_value :: "jsvalue \<Rightarrow> jsstring" where
  "string_value (JString s) = s"
| "string_value _ = []"

fun toCharArray :: "jsvalue \<Rightarrow> jsstring list" where
  "toCharArray (JString object) = Array_from object"
| "toCharArray (JArray object) = map string_value (filter maxSingleChar object)"
| "toCharArray _ = []"

definition validQuotesAndSeparators :: "jsstring \<Rightarrow> bool" where
  "validQuotesAndSeparators character \<longleftrightarrow>
     character \<noteq> [] \<and> character \<noteq> [LF] \<and> character \<noteq> [CR]"

definition space :: jsstring where
  "space = [SP]"

section \<open>Character classes and the transition table\<close>

datatype charClass = Linefeed | Other | Quote | Separator | Space | QuoteSeparator

datatype parserState =
  Empty | Unsettled | Unquoted | Open | Waiting | Closed | Finished | Discarded

text \<open>\<open>reduceClass\<close> falls off its end for a class list it does not know; the result is
  then \<open>undefined\<close>, here \<open>None\<close>.\<close>

definition reduceClass :: "charClass list \<Rightarrow> charClass option" where
  "reduceClass characterClasses =
     (if length characterClasses = 1 then Some (characterClasses ! 0)
      else if Space \<in> set characterClasses
              \<and> Quote \<in> set characterClasses \<and> Separator \<notin> set characterClasses
        then Some Quote
      else if Space \<in> set characterClasses
              \<and> Quote \<notin> set characterClasses \<and> Separator \<in> set characterClasses
        then Some Separator
      else if Quote \<in> set characterClasses \<and> Separator \<in> set characterClasses
        then Some QuoteSeparator
      else None)"

text \<open>The object \<open>states\<close> has a row for five states only; a lookup of any other state
  is \<open>undefined\<close>, and reading a property of it raises a TypeError.\<close>

fun states :: "parserState \<Rightarrow> (charClass \<Rightarrow> parserState) option" where
  "states Closed = Some (\<lambda>c. case c of
       Linefeed \<Rightarrow> Finished | Other \<Rightarrow> Open | Quote \<Rightarrow> Closed
     | QuoteSeparator \<Rightarrow> Finished | Separator \<Rightarrow> Finished | Space \<Rightarrow> Closed)"
| "states Open = Some (\<lambda>c. case c of
       Linefeed \<Rightarrow> Open | Other \<Rightarrow> Open | Quote \<Rightarrow> Waiting
     | QuoteSeparator \<Rightarrow> Waiting | Separator \<Rightarrow> Open | Space \<Rightarrow> Open)"
| "states Unquoted = Some (\<lambda>c. case c of
       Linefeed \<Rightarrow> Finished | Other \<Rightarrow> Unquoted | Quote \<Rightarrow> Unquoted
     | QuoteSeparator \<Rightarrow> Finished | Separator \<Rightarrow> Finished | Space \<Rightarrow> Unquoted)"
| "states Unsettled = Some (\<lambda>c. case c of
       Linefeed \<Rightarrow> Finished | Other \<Rightarrow> Unquoted | Quote \<Rightarrow> Open
     | QuoteSeparator \<Rightarrow> Open | Separator \<Rightarrow> Finished | Space \<Rightarrow> Unsettled)"
| "states Waiting = Some (\<lambda>c. case c of
       Linefeed \<Rightarrow> Finished | Other \<Rightarrow> Open | Quote \<Rightarrow> Open
     | QuoteSeparator \<Rightarrow> Open | Separator \<Rightarrow> Finished | Space \<Rightarrow> Closed)"
| "states Empty = None"
| "states Finished = None"
| "states Discarded = None"

definition transition :: "parserState \<Rightarrow> charClass \<Rightarrow> parserState option" where
  "transition parserState' reducedClass =
     (if parserState' = Empty \<and> reducedClass = Linefeed then Some Discarded
      else do {
        row \<leftarrow> states (if parserState' = Empty then Unsettled else parserState');
        Some (row reducedClass)
      })"

text \<open>The table of section 4.3 of the specification, row by row as it is printed there
  (columns lineFeed, other, quote, separator, space, quoteSeparator).\<close>

fun spec_table :: "parserState \<Rightarrow> charClass \<Rightarrow> parserState" where
  "spec_table Empty Linefeed = Discarded"
| "spec_table Empty Other = Unquoted"
| "spec_table Empty Quote = Open"
| "spec_table Empty Separator = Finished"
| "spec_table Empty Space = Unsettled"
| "spec_table Empty QuoteSeparator = Open"
| "spec_table Unsettled Linefeed = Finished"
| "spec_table Unsettled Other = Unquoted"
| "spec_table Unsettled Quote = Open"
| "spec_table Unsettled Separator = Finished"
| "spec_table Unsettled Space = Unsettled"
| "spec_table Unsettled QuoteSeparator = Open"
| "spec_table Unquoted Linefeed = Finished"
| "spec_table Unquoted Other = Unquoted"
| "spec_table Unquoted Quote = Unquoted"
| "spec_table Unquoted Separator = Finished"
| "spec_table Unquoted Space = Unquoted"
| "spec_table Unquoted QuoteSeparator = Finished"
| "spec_table Open Linefeed = Open"
| "spec_table Open Other = Open"
| "spec_table Open Quote = Waiting"
| "spec_table Open Separator = Open"
| "spec_table Open Space = Open"
| "spec_table Open QuoteSeparator = Waiting"
| "spec_table Waiting Linefeed = Finished"
| "spec_table Waiting Other = Open"
| "spec_table Waiting Quote = Open"
| "spec_table Waiting Separator = Finished"
| "spec_table Waiting Space = Closed"
| "spec_table Waiting QuoteSeparator = Open"
| "spec_table Closed Linefeed = Finished"
| "spec_table Closed Other = Open"
| "spec_table Closed Quote = Closed"
| "spec_table Closed Separator = Finished"
| "spec_table Closed Space = Closed"
| "spec_table Closed QuoteSeparator = Finished"
| "spec_table Finished c = Finished"
| "spec_table Discarded c = Discarded"

section \<open>The tokenizer\<close>

definition classifyCharacter :: "jsstring \<Rightarrow> jsstring \<Rightarrow> jsstring list \<Rightarrow> charClass list" where
  "classifyCharacter character quote' separators' =
     (let characterClasses =
        (if character = [LF] then [Linefeed]
         else (if character = quote' then [Quote] else [])
            @ (if character \<in> set separators' then [Separator] else [])
            @ (if character = space then [Space] else []))
      in if length characterClasses = 0 then characterClasses @ [Other] else characterClasses)"

datatype lineTaint = TaintNone | Inactive | Active

record aggregator =
  array :: "jsstring list list"
  parserState :: parserState
  quote :: jsstring
  separators :: "jsstring list"
  ignoreLinefeedBeforeEOF :: bool
  taintQuoteSeparatorLines :: bool
  lineTaint :: lineTaint

text \<open>
  The helpers address the last cell of the last row. On an empty table
  \<open>aggregator.array[aggregator.array.length - 1]\<close> is \<open>undefined\<close> and reading its
  \<open>length\<close> raises a TypeError. On an empty last row \<open>consume\<close> would write at index
  \<open>-1\<close>, outside the row; JavaScript does not raise there, the model reports it as a
  failure all the same, so that a result \<open>Some\<close> means every access was in bounds.
\<close>

definition consume :: "aggregator \<Rightarrow> jsstring \<Rightarrow> aggregator option" where
  "consume aggregator character =
     (if array aggregator = [] then None
      else let lastLine = last (array aggregator) in
        if lastLine = [] then None
        else Some (aggregator\<lparr>array :=
               butlast (array aggregator) @ [butlast lastLine @ [last lastLine @ character]]\<rparr>))"

definition discardCell :: "aggregator \<Rightarrow> aggregator option" where
  "discardCell aggregator =
     (if array aggregator = [] then None
      else Some ((if length (last (array aggregator)) > 1
                  then aggregator\<lparr>array :=
                         butlast (array aggregator) @ [butlast (last (array aggregator))]\<rparr>
                  else aggregator)
                 \<lparr>parserState := Finished, lineTaint := TaintNone\<rparr>))"

definition endCell :: "aggregator \<Rightarrow> charClass list \<Rightarrow> aggregator option" where
  "endCell aggregator characterClasses =
     (if Separator \<in> set characterClasses then
        (if array aggregator = [] then None
         else Some (aggregator\<lparr>array :=
                butlast (array aggregator) @ [last (array aggregator) @ [[]]],
                parserState := Empty\<rparr>))
      else if Linefeed \<in> set characterClasses then
        Some (aggregator\<lparr>array := array aggregator @ [[[]]],
                lineTaint := TaintNone, parserState := Empty\<rparr>)
      else Some (aggregator\<lparr>parserState := Empty\<rparr>))"

definition lineTaintActivation :: "aggregator \<Rightarrow> charClass \<Rightarrow> aggregator" where
  "lineTaintActivation aggregator reducedClass =
     (if reducedClass = QuoteSeparator then aggregator\<lparr>lineTaint := Active\<rparr>
      else if reducedClass = Separator then aggregator\<lparr>lineTaint := Inactive\<rparr>
      else aggregator)"

text \<open>The block of \<open>tokenizeCells\<close> guarded by \<open>aggregator.taintQuoteSeparatorLines\<close>:
  it returns the aggregator together with the possibly overridden \<open>nextState\<close>.\<close>

definition taintAdjustment ::
  "aggregator \<Rightarrow> charClass \<Rightarrow> parserState \<Rightarrow> (aggregator \<times> parserState) option" where
  "taintAdjustment aggregator reducedClass nextState =
     (let aggregator1 =
        (if nextState = Finished \<and> reducedClass \<noteq> Linefeed
              \<and> (parserState aggregator = Closed \<or> parserState aggregator = Waiting)
         then lineTaintActivation aggregator reducedClass
         else if nextState = Finished \<or> nextState = Discarded then
           (if reducedClass = Linefeed then aggregator\<lparr>lineTaint := TaintNone\<rparr>
            else if lineTaint aggregator \<noteq> TaintNone
              then lineTaintActivation aggregator reducedClass
            else aggregator)
         else aggregator)
      in if reducedClass = Linefeed \<and> nextState = Open \<and> lineTaint aggregator1 = Active
         then do {
           aggregator2 \<leftarrow> consume aggregator1 (quote aggregator1);
           Some (aggregator2\<lparr>lineTaint := TaintNone\<rparr>, Finished)
         }
         else Some (aggregator1, nextState))"

text \<open>The part of \<open>tokenizeCells\<close> after the state is committed: what the character
  does to the table. \<open>string\<close> is the array being reduced, so \<open>string.length\<close> counts
  characters.\<close>

definition affectTable ::
  "aggregator \<Rightarrow> jsstring \<Rightarrow> charClass list \<Rightarrow> nat \<Rightarrow> jsstring list \<Rightarrow> aggregator option" where
  "affectTable aggregator character characterClasses index string =
     (if int index \<noteq> int (length string) - 1 then
        (if parserState aggregator = Finished then endCell aggregator characterClasses
         else consume aggregator character)
      else if parserState aggregator = Open then do {
        aggregator1 \<leftarrow> (if \<not> ignoreLinefeedBeforeEOF aggregator
                        then consume aggregator character else Some aggregator);
        consume aggregator1 (quote aggregator1)
      }
      else Some aggregator)"

text \<open>An \<open>undefined\<close> reduced class would give an \<open>undefined\<close> next state, on which the
  next lookup raises; the model fails at once.\<close>

definition tokenizeCells ::
  "aggregator \<Rightarrow> jsstring \<Rightarrow> nat \<Rightarrow> jsstring list \<Rightarrow> aggregator option" where
  "tokenizeCells aggregator character index string =
     (let characterClasses =
        classifyCharacter character (quote aggregator) (separators aggregator)
      in do {
        reducedClass \<leftarrow> reduceClass characterClasses;
        nextState \<leftarrow> transition (parserState aggregator) reducedClass;
        (aggregator1, nextState1) \<leftarrow>
          (if taintQuoteSeparatorLines aggregator
           then taintAdjustment aggregator reducedClass nextState
           else Some (aggregator, nextState));
        let aggregator2 = aggregator1\<lparr>parserState := nextState1\<rparr>;
        aggregator3 \<leftarrow>
          (if parserState aggregator2 = Discarded then discardCell aggregator2
           else Some aggregator2);
        affectTable aggregator3 character characterClasses index string
      })"

text \<open>\<open>Array.prototype.reduce\<close> with an initial value: the callback receives the
  accumulator, the element, its index and the whole array.\<close>

fun reduce_from ::
  "('a \<Rightarrow> 'b \<Rightarrow> nat \<Rightarrow> 'b list \<Rightarrow> 'a option) \<Rightarrow> 'a \<Rightarrow> nat \<Rightarrow> 'b list \<Rightarrow> 'b list \<Rightarrow> 'a option" where
  "reduce_from callback accumulator index [] arr = Some accumulator"
| "reduce_from callback accumulator index (x # xs) arr = do {
     accumulator1 \<leftarrow> callback accumulator x index arr;
     reduce_from callback accumulator1 (Suc index) xs arr
   }"

definition reduce ::
  "('a \<Rightarrow> 'b \<Rightarrow> nat \<Rightarrow> 'b list \<Rightarrow> 'a option) \<Rightarrow> 'a \<Rightarrow> 'b list \<Rightarrow> 'a option" where
  "reduce callback initialValue arr = reduce_from callback initialValue 0 arr arr"

section \<open>Processing quoted values\<close>

text \<open>
  \<open>RegExp.escape\<close> makes the quote match literally, so the three regular expressions
  of \<open>parseString\<close> are matched here directly, in the order a backtracking matcher tries
  the alternatives. None has the \<open>u\<close> flag: they work on code units.

  \<open>surroundedQuotes\<close> is \<open>^ *Q([\s\S]*)Q( *)$\<close> with \<open>Q\<close> the quote: the leading \<open> *\<close>
  is greedy (\<open>k\<close> spaces, most first), then the first group is greedy (\<open>j\<close> code units,
  most first); the first split that matches gives the two groups.
\<close>

definition surroundedQuotes :: "jsstring \<Rightarrow> jsstring \<Rightarrow> (jsstring \<times> jsstring) option" where
  "surroundedQuotes quote' string =
     (let n = length quote';
          candidates = concat (map (\<lambda>k. map (\<lambda>j. (k, j)) (rev [0..<Suc (length string)]))
                         (rev [0..<Suc (length (takeWhile (\<lambda>u. u = SP) string))]))
      in case find (\<lambda>(k, j).
                  k + n + j + n \<le> length string
                \<and> take n (drop k string) = quote'
                \<and> take n (drop (k + n + j) string) = quote'
                \<and> list_all (\<lambda>u. u = SP) (drop (k + n + j + n) string)) candidates of
           None \<Rightarrow> None
         | Some (k, j) \<Rightarrow>
             Some (take j (drop (k + n) string), drop (k + n + j + n) string))"

text \<open>\<open>spaceQuotes\<close> is \<open>^ ([\s\S]*) $\<close>: one space, the group, one space.\<close>

definition spaceQuotes :: "jsstring \<Rightarrow> jsstring option" where
  "spaceQuotes string =
     (if 2 \<le> length string \<and> hd string = SP \<and> last string = SP
      then Some (butlast (tl string)) else None)"

text \<open>\<open>.replace(escapedQuotes, "$1")\<close> with \<open>escapedQuotes\<close> = \<open>(Q)\1\<close>, global: every
  doubled quote, found from left to right without overlap, becomes a single one. With an
  empty quote the expression matches the empty string everywhere and replaces it by the
  empty string.\<close>

function unescapeQuotes :: "jsstring \<Rightarrow> jsstring \<Rightarrow> jsstring" where
  "unescapeQuotes quote' [] = []"
| "unescapeQuotes quote' (u # us) =
     (if quote' \<noteq> [] \<and> prefix (quote' @ quote') (u # us)
      then quote' @ unescapeQuotes quote' (drop (2 * length quote') (u # us))
      else u # unescapeQuotes quote' us)"
  by pat_completeness auto
termination
  by (relation "measure (\<lambda>(q, s). length s)") auto

definition parseString :: "jsstring \<Rightarrow> bool \<Rightarrow> jsstring \<Rightarrow> jsstring" where
  "parseString quote' ignoreSpacesAfterQuotedString' string =
     (case (if quote' \<noteq> space then surroundedQuotes quote' string else None) of
        Some (group1, group2) \<Rightarrow>
          unescapeQuotes quote'
            (group1 @ (if ignoreSpacesAfterQuotedString' then [] else group2))
      | None \<Rightarrow>
          (case (if quote' = space then spaceQuotes string else None) of
             Some group1 \<Rightarrow> unescapeQuotes quote' group1
           | None \<Rightarrow> string))"

definition parseSubArrays :: "jsstring \<Rightarrow> bool \<Rightarrow> jsstring list \<Rightarrow> jsstring list" where
  "parseSubArrays quote' ignoreSpacesAfterQuotedString' subArray =
     map (parseString quote' ignoreSpacesAfterQuotedString') subArray"

section \<open>Header-keyed rows\<close>

text \<open>
  \<open>hashMap[this[index]] = cell\<close> on a plain object: beyond the header \<open>this[index]\<close> is
  \<open>undefined\<close>, which as a property key is the string "undefined"; an assignment of a
  string to the key "__proto__" reaches the setter inherited from \<open>Object.prototype\<close>,
  which ignores it, so no property is created.
\<close>

definition propertyKey :: "jsstring list \<Rightarrow> nat \<Rightarrow> jsstring" where
  "propertyKey this index =
     (if index < length this then this ! index else js ''undefined'')"

definition setProperty ::
  "(jsstring \<rightharpoonup> jsstring) \<Rightarrow> jsstring \<Rightarrow> jsstring \<Rightarrow> (jsstring \<rightharpoonup> jsstring)" where
  "setProperty hashMap key cell =
     (if key = js ''__proto__'' then hashMap else hashMap(key \<mapsto> cell))"

definition toHashMap :: "jsstring list \<Rightarrow> jsstring list \<Rightarrow> (jsstring \<rightharpoonup> jsstring)" where
  "toHashMap this row =
     foldl (\<lambda>hashMap (cell, index). setProperty hashMap (propertyKey this index) cell)
       Map.empty (zip row [0..<length row])"

section \<open>parse\<close>

record parse_options =
  opt_quote :: jsvalue
  opt_separators :: jsvalue
  opt_forceLineFeedAfterCarriageReturn :: bool
  opt_ignoreLinefeedBeforeEOF :: bool
  opt_ignoreSpacesAfterQuotedString :: bool
  opt_taintQuoteSeparatorLines :: bool

definition default_parse_options :: parse_options where
  "default_parse_options =
     \<lparr>opt_quote = JUndefined, opt_separators = JUndefined,
      opt_forceLineFeedAfterCarriageReturn = True, opt_ignoreLinefeedBeforeEOF = True,
      opt_ignoreSpacesAfterQuotedString = True, opt_taintQuoteSeparatorLines = False\<rparr>"

text \<open>\<open>csv.replace(strictLinebreakGroups, "\n")\<close> with \<open>/\r\n|\r/g\<close>, and the same with
  \<open>looseLinebreakGroups\<close> = \<open>/\r\n|\n\r|\r/g\<close>: one pass from left to right.\<close>

fun strictLinebreakGroups :: "jsstring \<Rightarrow> jsstring" where
  "strictLinebreakGroups [] = []"
| "strictLinebreakGroups [u] = (if u = CR then [LF] else [u])"
| "strictLinebreakGroups (u # v # us) =
     (if u = CR \<and> v = LF then LF # strictLinebreakGroups us
      else if u = CR then LF # strictLinebreakGroups (v # us)
      else u # strictLinebreakGroups (v # us))"

fun looseLinebreakGroups :: "jsstring \<Rightarrow> jsstring" where
  "looseLinebreakGroups [] = []"
| "looseLinebreakGroups [u] = (if u = CR then [LF] else [u])"
| "looseLinebreakGroups (u # v # us) =
     (if u = CR \<and> v = LF then LF # looseLinebreakGroups us
      else if u = LF \<and> v = CR then LF # looseLinebreakGroups us
      else if u = CR then LF # looseLinebreakGroups (v # us)
      else u # looseLinebreakGroups (v # us))"

definition preprocess :: "jsstring \<Rightarrow> bool \<Rightarrow> bool \<Rightarrow> jsstring" where
  "preprocess csv forceLineFeedAfterCarriageReturn' ignoreLinefeedBeforeEOF' =
     (let csv1 = (if forceLineFeedAfterCarriageReturn' then strictLinebreakGroups csv
                  else looseLinebreakGroups csv);
          csv2 = csv1 @ (if ignoreLinefeedBeforeEOF' \<and> suffix [LF] csv1 then [] else [LF])
      in filter (\<lambda>u. u \<noteq> NUL) csv2)"

definition parse_quote :: "jsvalue \<Rightarrow> jsstring" where
  "parse_quote quote' =
     (case filter validQuotesAndSeparators
             (toCharArray (if quote' = JUndefined then JString [DQUOTE] else quote')) of
        [] \<Rightarrow> []
      | character # _ \<Rightarrow> character)"

definition parse_separators :: "jsvalue \<Rightarrow> jsstring list" where
  "parse_separators separators' =
     filter validQuotesAndSeparators
       (toCharArray (if separators' = JUndefined then JArray [JString [COMMA]]
                     else separators'))"

record parsed =
  header :: "jsstring list"
  rows :: "jsstring list list"
  mappedRows :: "(jsstring \<rightharpoonup> jsstring) list"

definition initialAggregator :: "parse_options \<Rightarrow> aggregator" where
  "initialAggregator options =
     \<lparr>array = [[[]]], parserState = Empty,
      quote = parse_quote (opt_quote options),
      separators = parse_separators (opt_separators options),
      ignoreLinefeedBeforeEOF = opt_ignoreLinefeedBeforeEOF options,
      taintQuoteSeparatorLines = (opt_taintQuoteSeparatorLines options
        \<and> parse_quote (opt_quote options) \<in> set (parse_separators (opt_separators options))),
      lineTaint = TaintNone\<rparr>"

text \<open>The last step of \<open>parse\<close>: \<open>[header, ...rows]\<close> and the mapped rows. On an empty
  table \<open>header\<close> would be \<open>undefined\<close>; the model has no table to return then.\<close>

definition toOutput :: "jsstring list list \<Rightarrow> parsed option" where
  "toOutput table =
     (case table of
        [] \<Rightarrow> None
      | header' # rows' \<Rightarrow>
          Some \<lparr>header = header', rows = rows', mappedRows = map (toHashMap header') rows'\<rparr>)"

definition tokenize :: "jsstring \<Rightarrow> parse_options \<Rightarrow> aggregator option" where
  "tokenize csv options =
     reduce tokenizeCells (initialAggregator options)
       (Array_from (preprocess csv (opt_forceLineFeedAfterCarriageReturn options)
                      (opt_ignoreLinefeedBeforeEOF options)))"

definition parse :: "jsstring \<Rightarrow> parse_options \<Rightarrow> parsed option" where
  "parse csv options = do {
     aggregator \<leftarrow> tokenize csv options;
     toOutput (map (parseSubArrays (parse_quote (opt_quote options))
                      (opt_ignoreSpacesAfterQuotedString options))
                 (array aggregator))
   }"

section \<open>stringify\<close>

text \<open>
  \<open>stringify\<close> works on the row arrays it is handed, so the arrays of the caller live in
  a store, addressed by number; an array made during the call (the copy of the header,
  a row rebuilt from a mapped row) belongs to the call alone and is held by value. The
  cells are taken to be strings.
\<close>

type_synonym addr = nat
type_synonym store = "addr \<Rightarrow> jsstring list"

datatype rowRef = Shared addr | Own "jsstring list"

fun readRow :: "store \<Rightarrow> rowRef \<Rightarrow> jsstring list" where
  "readRow st (Shared a) = st a"
| "readRow st (Own cells) = cells"

text \<open>The input: an array of rows, or an object whose properties \<open>header\<close>, \<open>rows\<close>
  and \<open>mappedRows\<close> may each be missing.\<close>

datatype stringify_input =
  RowMajor "addr list"
| TableObject "addr option" "addr list option" "(jsstring \<rightharpoonup> jsstring) list option"

record stringify_options =
  sopt_quote :: jsvalue
  sopt_separator :: jsvalue
  sopt_lineEnd :: jsvalue
  sopt_trimEmpty :: bool
  sopt_lineEndBeforeEOF :: bool

definition default_stringify_options :: stringify_options where
  "default_stringify_options =
     \<lparr>sopt_quote = JUndefined, sopt_separator = JUndefined, sopt_lineEnd = JUndefined,
      sopt_trimEmpty = True, sopt_lineEndBeforeEOF = False\<rparr>"

definition stringify_quote :: "jsvalue \<Rightarrow> jsstring" where
  "stringify_quote quote' =
     (case filter validQuotesAndSeparators
             (toCharArray (if quote' = JUndefined then JString [DQUOTE] else quote')) of
        [] \<Rightarrow> [DQUOTE]
      | character # _ \<Rightarrow> character)"

definition stringify_separator :: "jsvalue \<Rightarrow> jsstring" where
  "stringify_separator separator' =
     (case filter validQuotesAndSeparators
             (toCharArray (if separator' = JUndefined then JString [COMMA] else separator')) of
        [] \<Rightarrow> [COMMA]
      | character # _ \<Rightarrow> character)"

definition stringify_lineEnd :: "jsvalue \<Rightarrow> jsstring" where
  "stringify_lineEnd lineEnd' =
     (if lineEnd' = JString [CR, LF] \<or> lineEnd' = JString [CR] then string_value lineEnd'
      else [LF])"

text \<open>\<open>String.prototype.includes\<close> with a string to search for.\<close>

fun string_includes :: "jsstring \<Rightarrow> jsstring \<Rightarrow> bool" where
  "string_includes [] searchString = (searchString = [])"
| "string_includes (u # us) searchString =
     (prefix searchString (u # us) \<or> string_includes us searchString)"

text \<open>
  \<open>String.prototype.replaceAll\<close> with a string pattern and a string replacement. The
  replacement is a template: in it \<open>$$\<close> stands for one dollar sign, \<open>$&\<close> for the match,
  \<open>$`\<close> for the text before the match and \<open>$'\<close> for the text after it; a string
  pattern has no captures, so every other \<open>$\<close> stands for itself.
\<close>

abbreviation DOLLAR :: "16 word" where "DOLLAR \<equiv> 0x24"

fun getSubstitution :: "jsstring \<Rightarrow> jsstring \<Rightarrow> jsstring \<Rightarrow> jsstring \<Rightarrow> jsstring" where
  "getSubstitution matched passed after [] = []"
| "getSubstitution matched passed after [u] = [u]"
| "getSubstitution matched passed after (u # v # template) =
     (if u = DOLLAR \<and> v = DOLLAR
        then DOLLAR # getSubstitution matched passed after template
      else if u = DOLLAR \<and> v = 0x26
        then matched @ getSubstitution matched passed after template
      else if u = DOLLAR \<and> v = 0x60
        then passed @ getSubstitution matched passed after template
      else if u = DOLLAR \<and> v = 0x27
        then after @ getSubstitution matched passed after template
      else u # getSubstitution matched passed after (v # template))"

text \<open>The matches are taken from left to right without overlap; \<open>passed\<close> is the part of
  the string that lies before the place reached. An empty pattern matches in front of
  every code unit and at the end.\<close>

function replaceAll_from ::
  "jsstring \<Rightarrow> jsstring \<Rightarrow> jsstring \<Rightarrow> jsstring \<Rightarrow> jsstring" where
  "replaceAll_from passed [] pattern replacement =
     (if pattern = [] then getSubstitution [] passed [] replacement else [])"
| "replaceAll_from passed (u # us) pattern replacement =
     (if pattern = []
        then getSubstitution [] passed (u # us) replacement
           @ u # replaceAll_from (passed @ [u]) us pattern replacement
      else if prefix pattern (u # us)
        then getSubstitution pattern passed (drop (length pattern) (u # us)) replacement
           @ replaceAll_from (passed @ pattern) (drop (length pattern) (u # us))
               pattern replacement
      else u # replaceAll_from (passed @ [u]) us pattern replacement)"
  by pat_completeness auto
termination
  by (relation "measure (\<lambda>(b, s, p, r). length s)") auto

definition replaceAll :: "jsstring \<Rightarrow> jsstring \<Rightarrow> jsstring \<Rightarrow> jsstring" where
  "replaceAll string pattern replacement = replaceAll_from [] string pattern replacement"

definition quoteString :: "jsstring \<Rightarrow> jsstring \<Rightarrow> jsstring \<Rightarrow> jsstring" where
  "quoteString quote' separator' cell =
     (let quotedContent = replaceAll cell quote' (quote' @ quote')
      in if string_includes cell [LF] \<or> string_includes cell quote' \<or> string_includes cell separator'
         then quote' @ quotedContent @ quote'
         else cell)"

fun join :: "jsstring \<Rightarrow> jsstring list \<Rightarrow> jsstring" where
  "join separator' [] = []"
| "join separator' [x] = x"
| "join separator' (x # y # ys) = x @ separator' @ join separator' (y # ys)"

text \<open>\<open>Array.from(maxCellCount, (_, index) => line[index] ?? "")\<close>: a negative length
  counts as zero.\<close>

definition toCSVLine :: "jsstring \<Rightarrow> jsstring \<Rightarrow> int \<Rightarrow> jsstring list \<Rightarrow> jsstring" where
  "toCSVLine quote' separator' maxCellCount line =
     join separator'
       (map (quoteString quote' separator')
          (map (\<lambda>index. if index < length line then line ! index else [])
             [0..<nat maxCellCount]))"

text \<open>\<open>this.hasOwnProperty(key)\<close> on a mapped row: a row that has a property named
  "hasOwnProperty" of its own holds a string there, and calling it raises a TypeError.\<close>

definition mapHeaderKeys :: "(jsstring \<rightharpoonup> jsstring) \<Rightarrow> jsstring \<Rightarrow> jsstring option" where
  "mapHeaderKeys this key =
     (if this (js ''hasOwnProperty'') \<noteq> None then None
      else Some (case this key of Some cell \<Rightarrow> cell | None \<Rightarrow> []))"

definition toRows :: "jsstring list \<Rightarrow> (jsstring \<rightharpoonup> jsstring) \<Rightarrow> jsstring list option" where
  "toRows this map' = those (map (mapHeaderKeys map') this)"

text \<open>\<open>row.splice(start, 1)\<close>: a negative start counts from the end of the row, a start
  beyond the end removes nothing.\<close>

definition splice1 :: "int \<Rightarrow> 'a list \<Rightarrow> 'a list" where
  "splice1 start row =
     (let len = int (length row);
          actualStart = nat (if start < 0 then max (len + start) 0 else min start len)
      in take actualStart row @ drop (Suc actualStart) row)"

text \<open>\<open>!row[i] || row[i].length === 0\<close> for a row of strings and any integer \<open>i\<close>.\<close>

definition emptyAt :: "jsstring list \<Rightarrow> int \<Rightarrow> bool" where
  "emptyAt row i = (if 0 \<le> i \<and> i < int (length row) then length (row ! nat i) = 0 else True)"

text \<open>The first loop of the \<open>trimEmpty\<close> block: \<open>allRows.pop()\<close> while the last row has
  empty strings only.\<close>

function popEmptyRows :: "store \<Rightarrow> rowRef list \<Rightarrow> rowRef list" where
  "popEmptyRows st allRows =
     (if length allRows > 0
         \<and> list_all (\<lambda>string. length string = 0) (readRow st (last allRows))
      then popEmptyRows st (butlast allRows)
      else allRows)"
  by pat_completeness auto
termination
  by (relation "measure (\<lambda>(st, allRows). length allRows)") auto

declare popEmptyRows.simps [simp del]

text \<open>\<open>allRows.forEach((row) => row.splice(start, 1))\<close>: a row of the caller is changed
  in the store, where every later reader of that array sees it.\<close>

fun spliceAll :: "int \<Rightarrow> rowRef list \<Rightarrow> store \<Rightarrow> rowRef list \<times> store" where
  "spliceAll start [] st = ([], st)"
| "spliceAll start (Shared a # rest) st =
     (case spliceAll start rest (st(a := splice1 start (st a))) of
        (rest1, st1) \<Rightarrow> (Shared a # rest1, st1))"
| "spliceAll start (Own cells # rest) st =
     (case spliceAll start rest st of
        (rest1, st1) \<Rightarrow> (Own (splice1 start cells) # rest1, st1))"

text \<open>The second loop: while the column \<open>maxCellCount.length - 1\<close> is empty or absent
  in every row, remove it from every row and count down.\<close>

function trimColumns :: "int \<Rightarrow> rowRef list \<Rightarrow> store \<Rightarrow> int \<times> rowRef list \<times> store" where
  "trimColumns maxCellCount allRows st =
     (if maxCellCount \<ge> 0
         \<and> list_all (\<lambda>row. emptyAt (readRow st row) (maxCellCount - 1)) allRows
      then (case spliceAll (maxCellCount - 1) allRows st of
              (allRows1, st1) \<Rightarrow> trimColumns (maxCellCount - 1) allRows1 st1)
      else (maxCellCount, allRows, st))"
  by pat_completeness auto
termination
  by (relation "measure (\<lambda>(maxCellCount, allRows, st). nat (maxCellCount + 1))") auto

declare trimColumns.simps [simp del]

text \<open>The rows \<open>stringify\<close> starts from. An empty array has no header: \<open>getLength\<close> then
  destructures \<open>undefined\<close> and raises a TypeError. The header of an object is copied,
  its rows are not.\<close>

definition inputRows :: "store \<Rightarrow> stringify_input \<Rightarrow> rowRef list option" where
  "inputRows st object =
     (case object of
        RowMajor [] \<Rightarrow> None
      | RowMajor (header' # rows') \<Rightarrow> Some (Shared header' # map Shared rows')
      | TableObject header' rows' mappedRows' \<Rightarrow>
          (let header1 = (case header' of None \<Rightarrow> [] | Some a \<Rightarrow> st a);
               rows1 = (case rows' of None \<Rightarrow> [] | Some as \<Rightarrow> map Shared as);
               mappedRows1 = (case mappedRows' of None \<Rightarrow> [] | Some ms \<Rightarrow> ms)
           in do {
             rows2 \<leftarrow> (if length rows1 = 0 \<and> length mappedRows1 > 0
                       then map_option (map Own) (those (map (toRows header1) mappedRows1))
                       else Some rows1);
             Some (Own header1 # rows2)
           }))"

text \<open>\<open>Math.max(...allRows.map(getLength))\<close>, of at least one length.\<close>

definition maxLength :: "store \<Rightarrow> rowRef list \<Rightarrow> int" where
  "maxLength st allRows = int (foldl max 0 (map (\<lambda>row. length (readRow st row)) allRows))"

text \<open>\<open>stringify\<close> returns the text and the store it leaves behind.\<close>

definition stringify ::
  "store \<Rightarrow> stringify_input \<Rightarrow> stringify_options \<Rightarrow> (jsstring \<times> store) option" where
  "stringify st object options =
     (let quote' = stringify_quote (sopt_quote options);
          separator' = stringify_separator (sopt_separator options);
          lineEnd' = stringify_lineEnd (sopt_lineEnd options)
      in do {
        allRows \<leftarrow> inputRows st object;
        let (maxCellCount, allRows1, st1) =
          (if sopt_trimEmpty options
           then trimColumns (maxLength st allRows) (popEmptyRows st allRows) st
           else (maxLength st allRows, allRows, st));
        Some (join lineEnd'
                (map (\<lambda>row. toCSVLine quote' separator' maxCellCount (readRow st1 row))
                   allRows1)
              @ (if sopt_lineEndBeforeEOF options then lineEnd' else []),
              st1)
      })"

section \<open>Predicates used in the statements\<close>

text \<open>A table the tokenizer can work on: at least one row, and a cell in every row.\<close>

definition tableInvariant :: "jsstring list list \<Rightarrow> bool" where
  "tableInvariant table \<longleftrightarrow> table \<noteq> [] \<and> list_all (\<lambda>row. row \<noteq> []) table"

text \<open>What holds of the aggregator between two characters: the table is in order and the
  state is one of the six that have a successor.\<close>

definition stepInvariant :: "aggregator \<Rightarrow> bool" where
  "stepInvariant a \<longleftrightarrow>
     tableInvariant (array a) \<and> parserState a \<noteq> Finished \<and> parserState a \<noteq> Discarded"





text \<open>The store in which the rows of a table lie at the addresses \<open>0, 1, ...\<close>.\<close>

definition store_of :: "jsstring list list \<Rightarrow> store" where
  "store_of table = (\<lambda>a. if a < length table then table ! a else [])"

text \<open>A cell the round trip is stated for: it holds no double quote, comma, line feed,
  carriage return or NUL.\<close>

definition safeCell :: "jsstring \<Rightarrow> bool" where
  "safeCell cell \<longleftrightarrow>
     DQUOTE \<notin> set cell \<and> COMMA \<notin> set cell \<and> LF \<notin> set cell \<and> CR \<notin> set cell
     \<and> NUL \<notin> set cell"

text \<open>The aggregator of a call with default options, by its table and its state: the other
  fields do not change while such a call runs.\<close>

definition defaultAggregator :: "jsstring list list \<Rightarrow> parserState \<Rightarrow> aggregator" where
  "defaultAggregator table s =
     \<lparr>array = table, parserState = s, quote = [DQUOTE], separators = [[COMMA]],
      ignoreLinefeedBeforeEOF = True, taintQuoteSeparatorLines = False,
      lineTaint = TaintNone\<rparr>"

text \<open>The state after a character that is neither quote, separator nor line feed, read in a
  cell that is not quoted.\<close>

definition plainNext :: "parserState \<Rightarrow> jsstring \<Rightarrow> parserState" where
  "plainNext s c = (if c = space \<and> s \<noteq> Unquoted then Unsettled else Unquoted)"

text \<open>A character that is neither the default quote, the default separator nor a line feed.\<close>

definition plainChar :: "jsstring \<Rightarrow> bool" where
  "plainChar c \<longleftrightarrow> c \<noteq> [] \<and> c \<noteq> [LF] \<and> c \<noteq> [DQUOTE] \<and> c \<noteq> [COMMA]"

text \<open>The states of a cell that has not been opened by a quote.\<close>

definition unsettledState :: "parserState \<Rightarrow> bool" where
  "unsettledState s \<longleftrightarrow> s = Empty \<or> s = Unsettled \<or> s = Unquoted"

text \<open>The characters of one line of the text written for a row of plain cells.\<close>

definition lineChars :: "jsstring list \<Rightarrow> jsstring list" where
  "lineChars row = Array_from (join [COMMA] row) @ [[LF]]"

text \<open>The tables the round trip is stated for: at least one row; all rows as long as the
  first, with at least one cell; plain cells; the last cell of a row not empty, unless the
  row has one cell only; and the last cell of the last row not empty.\<close>

definition roundTripTable :: "jsstring list list \<Rightarrow> bool" where
  "roundTripTable table \<longleftrightarrow>
     table \<noteq> []
     \<and> list_all (\<lambda>row. row \<noteq> [] \<and> length row = length (hd table)
           \<and> list_all safeCell row \<and> (length row = 1 \<or> last row \<noteq> [])) table
     \<and> last (last table) \<noteq> []"

section \<open>The transition function agrees with the specified table\<close>

text \<open>
  C1. For each of the six states a cell can be in and each reduced class, \<open>transition\<close>
  returns the successor printed in the table of section 4.3. From \<open>Empty\<close> a line feed
  goes to \<open>Discarded\<close>, and every other class goes where it goes from \<open>Unsettled\<close>.
\<close>

theorem transition_table:
  assumes "s \<noteq> Finished" and "s \<noteq> Discarded"
  shows "transition s c = Some (spec_table s c)
       \<and> transition Empty Linefeed = Some Discarded
       \<and> (c \<noteq> Linefeed \<longrightarrow> transition Empty c = transition Unsettled c)"
  using assms by (cases s; cases c) (simp_all add: transition_def)

theorem transition_table_witness:
  "Waiting \<noteq> Finished \<and> Waiting \<noteq> Discarded
   \<and> transition Waiting Space = Some Closed
   \<and> transition Empty Linefeed = Some Discarded
   \<and> transition Empty Space = transition Unsettled Space"
  using transition_table [of Waiting Space] by simp


section \<open>The table of the aggregator never loses its last cell\<close>

lemma classifyCharacter_nonempty: "classifyCharacter c q seps \<noteq> []"
  by (simp add: classifyCharacter_def Let_def)

lemma reduceClass_classifyCharacter:
  "\<exists>r. reduceClass (classifyCharacter c q seps) = Some r"
  by (simp add: classifyCharacter_def reduceClass_def Let_def)

lemma transition_defined:
  "s \<noteq> Finished \<Longrightarrow> s \<noteq> Discarded \<Longrightarrow> \<exists>n. transition s r = Some n"
  by (cases s) (simp_all add: transition_def)

lemma tableInvariant_nonempty: "tableInvariant t \<Longrightarrow> t \<noteq> []"
  by (simp add: tableInvariant_def)

lemma tableInvariant_last: "tableInvariant t \<Longrightarrow> last t \<noteq> []"
  by (cases t rule: rev_cases) (simp_all add: tableInvariant_def)

lemma tableInvariant_butlast_snoc:
  "tableInvariant t \<Longrightarrow> row \<noteq> [] \<Longrightarrow> tableInvariant (butlast t @ [row])"
  by (cases t rule: rev_cases) (simp_all add: tableInvariant_def)

lemma tableInvariant_snoc:
  "tableInvariant t \<Longrightarrow> row \<noteq> [] \<Longrightarrow> tableInvariant (t @ [row])"
  by (simp add: tableInvariant_def)

lemma consume_invariant:
  assumes "tableInvariant (array a)"
  shows "\<exists>a'. consume a c = Some a' \<and> tableInvariant (array a')
           \<and> parserState a' = parserState a"
proof -
  have "array a \<noteq> []" and "last (array a) \<noteq> []"
    using assms by (simp_all add: tableInvariant_nonempty tableInvariant_last)
  moreover have "tableInvariant
      (butlast (array a) @ [butlast (last (array a)) @ [last (last (array a)) @ c]])"
    using assms by (rule tableInvariant_butlast_snoc) simp
  ultimately show ?thesis
    by (simp add: consume_def Let_def)
qed

lemma discardCell_invariant:
  assumes "tableInvariant (array a)"
  shows "\<exists>a'. discardCell a = Some a' \<and> tableInvariant (array a')
           \<and> parserState a' = Finished
           \<and> length (array a') = length (array a)
           \<and> (length (last (array a)) = 1 \<longrightarrow> array a' = array a)"
proof (cases "length (last (array a)) > 1")
  case True
  then have "butlast (last (array a)) \<noteq> []"
    by (cases "last (array a)" rule: rev_cases) auto
  with assms have "tableInvariant (butlast (array a) @ [butlast (last (array a))])"
    by (rule tableInvariant_butlast_snoc)
  then show ?thesis
    using True tableInvariant_nonempty [OF assms] by (simp add: discardCell_def)
next
  case False
  then show ?thesis
    using assms tableInvariant_nonempty [OF assms] by (simp add: discardCell_def)
qed

lemma endCell_invariant:
  assumes "tableInvariant (array a)"
  shows "\<exists>a'. endCell a cls = Some a' \<and> tableInvariant (array a')
           \<and> parserState a' = Empty"
proof -
  have "tableInvariant (butlast (array a) @ [last (array a) @ [[]]])"
    using assms by (rule tableInvariant_butlast_snoc) simp
  moreover have "tableInvariant (array a @ [[[]]])"
    using assms by (rule tableInvariant_snoc) simp
  ultimately show ?thesis
    using assms tableInvariant_nonempty [OF assms] by (simp add: endCell_def)
qed

lemma lineTaintActivation_fields [simp]:
  "array (lineTaintActivation a r) = array a"
  "parserState (lineTaintActivation a r) = parserState a"
  by (simp_all add: lineTaintActivation_def)

lemma taintAdjustment_invariant:
  assumes "tableInvariant (array a)"
  shows "\<exists>a' n'. taintAdjustment a r n = Some (a', n') \<and> tableInvariant (array a')"
proof -
  define a1 where "a1 =
        (if n = Finished \<and> r \<noteq> Linefeed
              \<and> (parserState a = Closed \<or> parserState a = Waiting)
         then lineTaintActivation a r
         else if n = Finished \<or> n = Discarded then
           (if r = Linefeed then a\<lparr>lineTaint := TaintNone\<rparr>
            else if lineTaint a \<noteq> TaintNone
              then lineTaintActivation a r
            else a)
         else a)"
  have inv1: "tableInvariant (array a1)"
    using assms by (simp add: a1_def)
  from consume_invariant [OF inv1, of "quote a1"] obtain a2
    where "consume a1 (quote a1) = Some a2" and "tableInvariant (array a2)"
    by blast
  then show ?thesis
    using inv1 unfolding taintAdjustment_def a1_def [symmetric] Let_def
    by simp
qed

lemma affectTable_invariant:
  assumes "tableInvariant (array a)" and "parserState a \<noteq> Discarded"
  shows "\<exists>a'. affectTable a c cls i s = Some a' \<and> tableInvariant (array a')
           \<and> (int i \<noteq> int (length s) - 1
                \<longrightarrow> parserState a' \<noteq> Finished \<and> parserState a' \<noteq> Discarded)"
proof (cases "int i \<noteq> int (length s) - 1")
  case notLast: True
  show ?thesis
  proof (cases "parserState a = Finished")
    case True
    from endCell_invariant [OF assms(1), of cls] show ?thesis
      using notLast True by (auto simp add: affectTable_def)
  next
    case False
    from consume_invariant [OF assms(1), of c] show ?thesis
      using notLast False assms(2) by (auto simp add: affectTable_def)
  qed
next
  case isLast: False
  show ?thesis
  proof (cases "parserState a = Open")
    case True
    obtain a1 where
      a1: "(if \<not> ignoreLinefeedBeforeEOF a then consume a c else Some a) = Some a1"
      and inv1: "tableInvariant (array a1)"
      using consume_invariant [OF assms(1), of c] assms(1)
      by (cases "ignoreLinefeedBeforeEOF a") auto
    from consume_invariant [OF inv1, of "quote a1"] show ?thesis
      using isLast True a1 by (auto simp add: affectTable_def)
  next
    case False
    then show ?thesis
      using isLast assms(1) by (simp add: affectTable_def)
  qed
qed

lemma tokenizeCells_invariant:
  assumes "stepInvariant a"
  shows "\<exists>a'. tokenizeCells a c i s = Some a' \<and> tableInvariant (array a')
           \<and> (int i \<noteq> int (length s) - 1 \<longrightarrow> stepInvariant a')"
proof -
  let ?cls = "classifyCharacter c (quote a) (separators a)"
  obtain r where r: "reduceClass ?cls = Some r"
    using reduceClass_classifyCharacter by blast
  obtain n where n: "transition (parserState a) r = Some n"
    using assms transition_defined [of "parserState a" r]
    by (auto simp add: stepInvariant_def)
  have inv: "tableInvariant (array a)"
    using assms by (simp add: stepInvariant_def)
  obtain a1 n1 where t: "(if taintQuoteSeparatorLines a then taintAdjustment a r n
       else Some (a, n)) = Some (a1, n1)" and inv1: "tableInvariant (array a1)"
    using taintAdjustment_invariant [OF inv, of r n] inv
    by (cases "taintQuoteSeparatorLines a") auto
  let ?a2 = "a1\<lparr>parserState := n1\<rparr>"
  have inv2: "tableInvariant (array ?a2)"
    using inv1 by simp
  obtain a3 where
    d: "(if parserState ?a2 = Discarded then discardCell ?a2 else Some ?a2) = Some a3"
    and inv3: "tableInvariant (array a3)" and st3: "parserState a3 \<noteq> Discarded"
  proof (cases "parserState ?a2 = Discarded")
    case True
    with discardCell_invariant [OF inv2] that show ?thesis by auto
  next
    case False
    with inv2 that show ?thesis by auto
  qed
  from affectTable_invariant [OF inv3 st3, of c ?cls i s] obtain a' where
    "affectTable a3 c ?cls i s = Some a'" "tableInvariant (array a')"
    "int i \<noteq> int (length s) - 1
       \<longrightarrow> parserState a' \<noteq> Finished \<and> parserState a' \<noteq> Discarded"
    by blast
  then show ?thesis
    using r n t d unfolding tokenizeCells_def Let_def stepInvariant_def
    by simp
qed

lemma reduce_from_invariant:
  assumes "stepInvariant a" and "i + length xs \<le> length arr"
  shows "\<exists>a'. reduce_from tokenizeCells a i xs arr = Some a' \<and> tableInvariant (array a')"
  using assms
proof (induction xs arbitrary: a i)
  case Nil
  then show ?case by (simp add: stepInvariant_def)
next
  case (Cons x xs)
  from tokenizeCells_invariant [OF Cons.prems(1), of x i arr] obtain a1 where
    a1: "tokenizeCells a x i arr = Some a1" "tableInvariant (array a1)"
    "int i \<noteq> int (length arr) - 1 \<longrightarrow> stepInvariant a1"
    by blast
  show ?case
  proof (cases xs)
    case Nil
    then show ?thesis using a1 by simp
  next
    case (Cons y ys)
    with Cons.prems(2) have "int i \<noteq> int (length arr) - 1" by simp
    with a1 have "stepInvariant a1" by simp
    moreover have "Suc i + length xs \<le> length arr" using Cons.prems(2) by simp
    ultimately obtain a' where "reduce_from tokenizeCells a1 (Suc i) xs arr = Some a'"
      "tableInvariant (array a')"
      using Cons.IH by blast
    then show ?thesis using a1 by simp
  qed
qed

lemma initialAggregator_invariant: "stepInvariant (initialAggregator options)"
  by (simp add: stepInvariant_def initialAggregator_def tableInvariant_def)

text \<open>
  C10. After any number \<open>k\<close> of the characters of the array being reduced (none: the
  initial aggregator), tokenization has not failed and the table has a last row with a
  last cell. \<open>discardCell\<close> keeps that: it never changes the number of rows, and it
  leaves a row of one cell as it is.
\<close>

theorem table_invariant_throughout:
  assumes "k \<le> length characters"
  shows "(\<exists>a. reduce_from tokenizeCells (initialAggregator options) 0
                (take k characters) characters = Some a
              \<and> tableInvariant (array a))
       \<and> (tableInvariant (array b) \<longrightarrow>
            (\<exists>b'. discardCell b = Some b' \<and> tableInvariant (array b')
               \<and> length (array b') = length (array b)
               \<and> (length (last (array b)) = 1 \<longrightarrow> array b' = array b)))"
proof -
  have "0 + length (take k characters) \<le> length characters"
    using assms by simp
  with initialAggregator_invariant
  have "\<exists>a. reduce_from tokenizeCells (initialAggregator options) 0
                (take k characters) characters = Some a
           \<and> tableInvariant (array a)"
    by (rule reduce_from_invariant)
  then show ?thesis
    using discardCell_invariant [of b] by blast
qed

theorem table_invariant_throughout_witness:
  "(2::nat) \<le> length [[COMMA], [LF], [0x61], [LF]]
   \<and> (\<exists>a. reduce_from tokenizeCells (initialAggregator default_parse_options) 0
             (take 2 [[COMMA], [LF], [0x61], [LF]]) [[COMMA], [LF], [0x61], [LF]] = Some a
          \<and> tableInvariant (array a))
   \<and> tableInvariant (array (initialAggregator default_parse_options))
   \<and> (\<exists>b'. discardCell (initialAggregator default_parse_options) = Some b'
          \<and> tableInvariant (array b')
          \<and> array b' = array (initialAggregator default_parse_options))"
proof -
  have k: "(2::nat) \<le> length [[COMMA], [LF], [0x61::16 word], [LF]]"
    by simp
  have inv: "tableInvariant (array (initialAggregator default_parse_options))"
    by (simp add: initialAggregator_def tableInvariant_def)
  have one: "length (last (array (initialAggregator default_parse_options))) = 1"
    by (simp add: initialAggregator_def)
  show ?thesis
    using table_invariant_throughout
      [OF k, of default_parse_options "initialAggregator default_parse_options"]
      inv one
    by auto
qed

section \<open>parse always returns a table\<close>

lemma tokenize_total:
  "\<exists>a. tokenize csv options = Some a \<and> tableInvariant (array a)"
  unfolding tokenize_def reduce_def
  by (rule reduce_from_invariant [OF initialAggregator_invariant]) simp

lemma parse_total: "\<exists>t. parse csv options = Some t"
proof -
  obtain a where a: "tokenize csv options = Some a" "tableInvariant (array a)"
    using tokenize_total by blast
  then obtain h b where "array a = h # b"
    by (cases "array a") (auto simp add: tableInvariant_def)
  with a show ?thesis
    by (simp add: parse_def toOutput_def)
qed

text \<open>
  C6. For every text and every option record \<open>parse\<close> returns a table: no lookup is
  undefined and no access to the table of the aggregator is out of bounds, since each of
  these is a failure of the model. Every character has at least one class, every class
  list of a character has a reduced class, and every state a cell can be in has a
  successor on every reduced class. All functions involved are total.
\<close>

theorem parse_never_fails:
  "(\<exists>t. parse csv options = Some t)
   \<and> classifyCharacter c q seps \<noteq> []
   \<and> (\<exists>r. reduceClass (classifyCharacter c q seps) = Some r)
   \<and> (s \<noteq> Finished \<and> s \<noteq> Discarded \<longrightarrow> (\<exists>n. transition s r' = Some n))"
  using parse_total classifyCharacter_nonempty reduceClass_classifyCharacter
    transition_defined [of s r']
  by blast

theorem parse_never_fails_witness:
  "(\<exists>t. parse [DQUOTE, 0x61, LF, NUL, CR] default_parse_options = Some t)
   \<and> classifyCharacter [SP] [SP] [[SP], [COMMA]] \<noteq> []
   \<and> (\<exists>r. reduceClass (classifyCharacter [SP] [SP] [[SP], [COMMA]]) = Some r)
   \<and> Closed \<noteq> Finished \<and> Closed \<noteq> Discarded
   \<and> (\<exists>n. transition Closed QuoteSeparator = Some n)"
  using parse_never_fails
    [of "[DQUOTE, 0x61, LF, NUL, CR]" default_parse_options
        "[SP]" "[SP]" "[[SP], [COMMA]]" Closed QuoteSeparator]
  by simp

section \<open>Scenario D: a tainted row\<close>

text \<open>
  C2, as stated: with quote and separator both the comma, taint emulation on and every
  other option at its default, the header of scenario D would begin with the cell
  "Foxes & Wolves " (with the space after the closing quote). It does not.
\<close>

theorem scenarioD_header_counterexample:
  "map_option header
     (parse (js '',Foxes & Wolves, ,Tucans,,Birds'' @ [LF] @ js ''of Paradise,'')
        (default_parse_options\<lparr>opt_quote := JString (js '',''),
           opt_separators := JArray [JString (js '','')],
           opt_taintQuoteSeparatorLines := True\<rparr>))
   \<noteq> Some [js ''Foxes & Wolves '', js ''Tucans'', js ''Birds'']"
  by code_simp

lemma scenarioD_default:
  "map_option (\<lambda>p. (header p, rows p))
     (parse (js '',Foxes & Wolves, ,Tucans,,Birds'' @ [LF] @ js ''of Paradise,'')
        (default_parse_options\<lparr>opt_quote := JString (js '',''),
           opt_separators := JArray [JString (js '','')],
           opt_taintQuoteSeparatorLines := True\<rparr>))
   = Some ([js ''Foxes & Wolves'', js ''Tucans'', js ''Birds''], [[js ''of Paradise'']])"
  by code_simp

lemma scenarioD_preserve:
  "map_option (\<lambda>p. (header p, rows p))
     (parse (js '',Foxes & Wolves, ,Tucans,,Birds'' @ [LF] @ js ''of Paradise,'')
        (default_parse_options\<lparr>opt_quote := JString (js '',''),
           opt_separators := JArray [JString (js '','')],
           opt_ignoreSpacesAfterQuotedString := False,
           opt_taintQuoteSeparatorLines := True\<rparr>))
   = Some ([js ''Foxes & Wolves '', js ''Tucans'', js ''Birds''], [[js ''of Paradise'']])"
  by code_simp

lemma scenarioD_no_linefeed:
  "LF \<notin> set (concat ([js ''Foxes & Wolves'', js ''Tucans'', js ''Birds'']
                       @ concat [[js ''of Paradise'']]))"
  by (simp add: js_def)

text \<open>
  C2, amended. The same call returns exactly two rows, the header
  "Foxes & Wolves", "Tucans", "Birds" and the row "of Paradise", and no cell holds a line
  feed: by default the spaces after a quoted value are dropped with the quotes. With
  \<open>ignoreSpacesAfterQuotedString\<close> switched off as well, the first cell is
  "Foxes & Wolves " and the rest is the same.
\<close>

theorem scenarioD_rows:
  "map_option (\<lambda>p. (header p, rows p, LF \<in> set (concat (header p @ concat (rows p)))))
     (parse (js '',Foxes & Wolves, ,Tucans,,Birds'' @ [LF] @ js ''of Paradise,'')
        (default_parse_options\<lparr>opt_quote := JString (js '',''),
           opt_separators := JArray [JString (js '','')],
           opt_taintQuoteSeparatorLines := True\<rparr>))
   = Some ([js ''Foxes & Wolves'', js ''Tucans'', js ''Birds''], [[js ''of Paradise'']], False)
   \<and> map_option (\<lambda>p. (header p, rows p))
     (parse (js '',Foxes & Wolves, ,Tucans,,Birds'' @ [LF] @ js ''of Paradise,'')
        (default_parse_options\<lparr>opt_quote := JString (js '',''),
           opt_separators := JArray [JString (js '','')],
           opt_ignoreSpacesAfterQuotedString := False,
           opt_taintQuoteSeparatorLines := True\<rparr>))
   = Some ([js ''Foxes & Wolves '', js ''Tucans'', js ''Birds''], [[js ''of Paradise'']])"
proof -
  obtain p where p: "parse (js '',Foxes & Wolves, ,Tucans,,Birds'' @ [LF] @ js ''of Paradise,'')
        (default_parse_options\<lparr>opt_quote := JString (js '',''),
           opt_separators := JArray [JString (js '','')],
           opt_taintQuoteSeparatorLines := True\<rparr>) = Some p"
    using parse_total by blast
  with scenarioD_default have "header p = [js ''Foxes & Wolves'', js ''Tucans'', js ''Birds'']"
    and "rows p = [[js ''of Paradise'']]"
    by simp_all
  with p scenarioD_no_linefeed scenarioD_preserve show ?thesis
    by simp
qed

section \<open>Mapped rows\<close>

lemma toHashMap_Nil: "toHashMap h [] = Map.empty"
  by (simp add: toHashMap_def)

lemma toHashMap_snoc:
  "toHashMap h (r @ [c]) = setProperty (toHashMap h r) (propertyKey h (length r)) c"
  by (simp add: toHashMap_def)

text \<open>
  C4, as stated: a header position beyond the end of a row would be mapped to the empty
  string, and a cell beyond the end of the header would be absent from the mapped row.
  For the text \<open>a,b\<close> / \<open>c\<close> the mapped row has no entry for \<open>b\<close> at all; for the text
  \<open>a\<close> / \<open>c,d\<close> the cell \<open>d\<close> is in the mapped row, under the key "undefined".
\<close>

theorem mapped_row_counterexample:
  "map_option (\<lambda>p. (rows p, map (\<lambda>m. (m (js ''a''), m (js ''b''))) (mappedRows p)))
     (parse (js ''a,b'' @ [LF] @ js ''c'') default_parse_options)
   = Some ([[js ''c'']], [(Some (js ''c''), None)])
   \<and> map_option (\<lambda>p. (rows p, map (\<lambda>m. (m (js ''a''), m (js ''undefined''))) (mappedRows p)))
     (parse (js ''a'' @ [LF] @ js ''c,d'') default_parse_options)
   = Some ([[js ''c'', js ''d'']], [(Some (js ''c''), Some (js ''d''))])"
  by code_simp

text \<open>
  C4, amended. The plain rows are the body rows as they are, and the mapped rows are
  built from them one by one. In the mapped row of a body row \<open>r\<close>, a header entry that
  occurs once in the header (and is not "__proto__", which an object cannot be given as
  a property by assignment) is mapped to the cell of \<open>r\<close> at its position when \<open>r\<close> has
  one, and has no entry when \<open>r\<close> is too short. When \<open>r\<close> is longer than the header this
  is stated for header entries other than "undefined" only; nothing is said about where
  the excess cells go.
\<close>

theorem mapped_row_entries:
  assumes "i < length h" and "\<forall>j<length h. j \<noteq> i \<longrightarrow> h ! j \<noteq> h ! i"
    and "h ! i \<noteq> js ''__proto__''"
    and "length h < length r \<longrightarrow> h ! i \<noteq> js ''undefined''"
  shows "toHashMap h r (h ! i) = (if i < length r then Some (r ! i) else None)
       \<and> toOutput (h # body)
           = Some \<lparr>header = h, rows = body, mappedRows = map (toHashMap h) body\<rparr>"
proof -
  have "toHashMap h r (h ! i) = (if i < length r then Some (r ! i) else None)"
    using assms(4)
  proof (induction r rule: rev_induct)
    case Nil
    show ?case by (simp add: toHashMap_Nil)
  next
    case (snoc c r)
    show ?case
    proof (cases "length r < length h")
      case True
      then have key: "propertyKey h (length r) = h ! length r"
        by (simp add: propertyKey_def)
      show ?thesis
      proof (cases "i = length r")
        case True
        then show ?thesis
          using assms(3) by (simp add: toHashMap_snoc key setProperty_def)
      next
        case False
        with True assms(2) have "h ! length r \<noteq> h ! i" by blast
        moreover have "toHashMap h r (h ! i) = (if i < length r then Some (r ! i) else None)"
          using snoc.IH True by simp
        ultimately show ?thesis
          using False by (auto simp add: toHashMap_snoc key setProperty_def nth_append)
      qed
    next
      case False
      then have key: "propertyKey h (length r) = js ''undefined''"
        by (simp add: propertyKey_def)
      from False have "length h < length (r @ [c])" by simp
      with snoc.prems have ne: "h ! i \<noteq> js ''undefined''" by blast
      have "toHashMap h r (h ! i) = (if i < length r then Some (r ! i) else None)"
        using snoc.IH ne by simp
      then show ?thesis
        using False assms(1) ne
        by (auto simp add: toHashMap_snoc key setProperty_def nth_append)
    qed
  qed
  then show ?thesis
    by (simp add: toOutput_def)
qed

theorem mapped_row_entries_witness:
  "toHashMap [js ''a'', js ''b''] [js ''c''] (js ''a'') = Some (js ''c'')
   \<and> toHashMap [js ''a'', js ''b''] [js ''c''] (js ''b'') = None
   \<and> toOutput [[js ''a'', js ''b''], [js ''c'']]
       = Some \<lparr>header = [js ''a'', js ''b''], rows = [[js ''c'']],
               mappedRows = map (toHashMap [js ''a'', js ''b'']) [[js ''c'']]\<rparr>"
proof -
  let ?h = "[js ''a'', js ''b'']"
  have u0: "\<forall>j<length ?h. j \<noteq> 0 \<longrightarrow> ?h ! j \<noteq> ?h ! 0"
    by (auto simp add: less_Suc_eq js_def)
  have u1: "\<forall>j<length ?h. j \<noteq> 1 \<longrightarrow> ?h ! j \<noteq> ?h ! 1"
    by (auto simp add: less_Suc_eq js_def)
  have p0: "?h ! 0 \<noteq> js ''__proto__''" and p1: "?h ! 1 \<noteq> js ''__proto__''"
    by (simp_all add: js_def)
  have l: "length ?h < length [js ''c''] \<longrightarrow> ?h ! 0 \<noteq> js ''undefined''"
    and l1: "length ?h < length [js ''c''] \<longrightarrow> ?h ! 1 \<noteq> js ''undefined''"
    by simp_all
  have i0: "0 < length ?h" and i1: "1 < length ?h"
    by simp_all
  show ?thesis
    using mapped_row_entries [OF i0 u0 p0 l, of "[[js ''c'']]"]
      mapped_row_entries [OF i1 u1 p1 l1, of "[[js ''c'']]"]
    by simp
qed

section \<open>Quote and separator values\<close>




















section \<open>Which cells stringify quotes\<close>

lemma string_includes_sublist: "string_includes cell x \<longleftrightarrow> sublist x cell"
  by (induction cell) (simp_all add: sublist_Cons_right)

lemma sublist_single: "sublist [u] cell \<longleftrightarrow> u \<in> set cell"
  by (induction cell) (auto simp add: sublist_Cons_right)

lemma replaceAll_from_single:
  "u \<noteq> DOLLAR \<Longrightarrow>
   replaceAll_from passed cell [u] [u, u]
     = concat (map (\<lambda>w. if w = u then [u, u] else [w]) cell)"
  by (induction cell arbitrary: passed) auto

text \<open>What \<open>quoteString\<close> does for a quote \<open>u\<close> of one code unit other than the dollar
  sign: the cell is wrapped, with every \<open>u\<close> in it doubled, exactly when it contains the
  quote, the separator or a line feed, and is returned as it is otherwise.\<close>

lemma quoteString_other_quotes:
  "u \<noteq> DOLLAR \<Longrightarrow>
   quoteString [u] [v] cell =
     (if u \<in> set cell \<or> v \<in> set cell \<or> LF \<in> set cell
      then [u] @ concat (map (\<lambda>w. if w = u then [u, u] else [w]) cell) @ [u]
      else cell)"
  by (simp add: quoteString_def replaceAll_def string_includes_sublist sublist_single
        replaceAll_from_single)

text \<open>
  C7. The claim is that a cell which contains the quote is written between two quotes
  with every quote inside it doubled. With the dollar sign as quote the cell \<open>a$b\<close> is
  written as \<open>$a$b$\<close>: the replacement \<open>$$\<close> handed to \<open>replaceAll\<close> is a template that
  stands for one dollar sign, so nothing is doubled. With the default quote the cell
  \<open>a"b\<close> is written as \<open>"a""b"\<close>.
\<close>

theorem dollar_quote_not_doubled:
  "stringify_quote (JString [DOLLAR]) = [DOLLAR]
   \<and> quoteString [DOLLAR] [COMMA] [0x61, DOLLAR, 0x62] = [DOLLAR, 0x61, DOLLAR, 0x62, DOLLAR]
   \<and> map_option fst (stringify (store_of [[[0x61, DOLLAR, 0x62]]]) (RowMajor [0])
        (default_stringify_options\<lparr>sopt_quote := JString [DOLLAR]\<rparr>))
     = Some [DOLLAR, 0x61, DOLLAR, 0x62, DOLLAR]
   \<and> quoteString [DQUOTE] [COMMA] [0x61, DQUOTE, 0x62]
     = [DQUOTE, 0x61, DQUOTE, DQUOTE, 0x62, DQUOTE]"
  by code_simp

section \<open>An absent quote\<close>

text \<open>
  C8. With the empty string as quote no character is a quote for the tokenizer: the one
  cell of the text "  a" is tokenized as "  a". The claim is that the cell then passes
  through \<open>parseString\<close> unchanged. It does not: the pattern built from the empty quote
  matches every cell, and the cell comes out as "a", without its leading spaces. With
  the default quote the same cell is left as it is.
\<close>

theorem absent_quote_strips_spaces:
  "map_option array (tokenize (js ''  a'') (default_parse_options\<lparr>opt_quote := JString []\<rparr>))
     = Some [[js ''  a'']]
   \<and> map_option header (parse (js ''  a'') (default_parse_options\<lparr>opt_quote := JString []\<rparr>))
     = Some [js ''a'']
   \<and> map_option header (parse (js ''  a'') default_parse_options) = Some [js ''  a'']"
  by code_simp

section \<open>stringify and the arrays of its caller\<close>

text \<open>The store changes in the \<open>trimEmpty\<close> block only: with \<open>trimEmpty\<close> switched
  off every call leaves it as it was.\<close>

lemma stringify_without_trimEmpty:
  "\<not> sopt_trimEmpty options \<Longrightarrow> stringify st object options = Some (text, st')
     \<Longrightarrow> st' = st"
  by (cases "inputRows st object") (auto simp add: stringify_def Let_def)

text \<open>
  C9. The claim is that \<open>stringify\<close> leaves the rows it is given as they were. With
  \<open>trimEmpty\<close> at its default, the rows \<open>A, B, ""\<close> and \<open>x, y, ""\<close> at the addresses 0 and 1
  have lost their last cell after the call, when they are passed as an array of rows.
  Passed as \<open>header\<close> and \<open>rows\<close> of an object, the header, which is copied, is intact
  and the row is not.
\<close>

theorem stringify_changes_rows:
  "map_option (\<lambda>(text, st). (text, st 0, st 1))
     (stringify (store_of [[js ''A'', js ''B'', []], [js ''x'', js ''y'', []]])
        (RowMajor [0, 1]) default_stringify_options)
   = Some (js ''A,B'' @ [LF] @ js ''x,y'', [js ''A'', js ''B''], [js ''x'', js ''y''])
   \<and> map_option (\<lambda>(text, st). (text, st 0, st 1))
     (stringify (store_of [[js ''A'', js ''B'', []], [js ''x'', js ''y'', []]])
        (TableObject (Some 0) (Some [1]) None) default_stringify_options)
   = Some (js ''A,B'' @ [LF] @ js ''x,y'', [js ''A'', js ''B'', []], [js ''x'', js ''y''])"
  by code_simp

section \<open>The round trip through stringify and parse\<close>

text \<open>
  C3, as stated: for every table of cells without quote, separator and line feed, parsing
  the text written for it gives its rows back. Under the default options a last row of
  empty cells is not written at all; a short row is padded and read back with an empty
  cell more than it had; a carriage return inside a cell is read as a line break; a NUL
  inside a cell is removed; and an empty cell at the end of a row of several cells is
  not read back.
\<close>

theorem round_trip_counterexample:
  "map_option fst (stringify (store_of [[js ''a''], [[]]]) (RowMajor [0, 1])
      default_stringify_options) = Some (js ''a'')
   \<and> map_option rows (parse (js ''a'') default_parse_options) = Some []
   \<and> map_option fst (stringify (store_of [[js ''a'', js ''b'', js ''c''], [js ''d'']])
      (RowMajor [0, 1]) default_stringify_options) = Some (js ''a,b,c'' @ [LF] @ js ''d,,'')
   \<and> map_option rows (parse (js ''a,b,c'' @ [LF] @ js ''d,,'') default_parse_options)
     = Some [[js ''d'', []]]
   \<and> map_option fst (stringify (store_of [[[0x61, CR, 0x62]]]) (RowMajor [0])
      default_stringify_options) = Some [0x61, CR, 0x62]
   \<and> map_option rows (parse [0x61, CR, 0x62] default_parse_options) = Some [[js ''b'']]
   \<and> map_option fst (stringify (store_of [[js ''h''], [[0x61, NUL, 0x62]]]) (RowMajor [0, 1])
      default_stringify_options) = Some (js ''h'' @ [LF, 0x61, NUL, 0x62])
   \<and> map_option rows (parse (js ''h'' @ [LF, 0x61, NUL, 0x62]) default_parse_options)
     = Some [[js ''ab'']]
   \<and> map_option fst (stringify (store_of [[js ''a'', js ''b''], [js ''c'', []], [js ''d'', js ''e'']])
      (RowMajor [0, 1, 2]) default_stringify_options)
     = Some (js ''a,b'' @ [LF] @ js ''c,'' @ [LF] @ js ''d,e'')
   \<and> map_option rows (parse (js ''a,b'' @ [LF] @ js ''c,'' @ [LF] @ js ''d,e'')
      default_parse_options) = Some [[js ''c''], [js ''d'', js ''e'']]"
  by code_simp

lemma initialAggregator_default:
  "initialAggregator default_parse_options = defaultAggregator [[[]]] Empty"
  by (simp add: initialAggregator_def defaultAggregator_def default_parse_options_def
      parse_quote_def parse_separators_def validQuotesAndSeparators_def)

lemma tokenize_plain:
  assumes "plainChar c" and "unsettledState s" and "int i \<noteq> int (length arr) - 1"
  shows "tokenizeCells (defaultAggregator (rs @ [cells @ [cur]]) s) c i arr
       = Some (defaultAggregator (rs @ [cells @ [cur @ c]]) (plainNext s c))"
  using assms
  by (auto simp add: tokenizeCells_def defaultAggregator_def classifyCharacter_def
      reduceClass_def transition_def affectTable_def consume_def plainNext_def
      plainChar_def unsettledState_def space_def Let_def)

lemma tokenize_separator:
  assumes "unsettledState s" and "int i \<noteq> int (length arr) - 1"
  shows "tokenizeCells (defaultAggregator (rs @ [row]) s) [COMMA] i arr
       = Some (defaultAggregator (rs @ [row @ [[]]]) Empty)"
  using assms
  by (auto simp add: tokenizeCells_def defaultAggregator_def classifyCharacter_def
      reduceClass_def transition_def affectTable_def endCell_def
      unsettledState_def space_def Let_def)

lemma tokenize_linefeed:
  assumes "s = Unsettled \<or> s = Unquoted" and "int i \<noteq> int (length arr) - 1"
  shows "tokenizeCells (defaultAggregator table s) [LF] i arr
       = Some (defaultAggregator (table @ [[[]]]) Empty)"
  using assms
  by (auto simp add: tokenizeCells_def defaultAggregator_def classifyCharacter_def
      reduceClass_def transition_def affectTable_def endCell_def Let_def)

lemma tokenize_linefeed_sole:
  assumes "int i \<noteq> int (length arr) - 1"
  shows "tokenizeCells (defaultAggregator (rs @ [[cell]]) Empty) [LF] i arr
       = Some (defaultAggregator (rs @ [[cell]] @ [[[]]]) Empty)"
  using assms
  by (auto simp add: tokenizeCells_def defaultAggregator_def classifyCharacter_def
      reduceClass_def transition_def affectTable_def endCell_def discardCell_def Let_def)

lemma tokenize_linefeed_last:
  assumes "s = Unsettled \<or> s = Unquoted" and "int i = int (length arr) - 1"
  shows "tokenizeCells (defaultAggregator table s) [LF] i arr
       = Some (defaultAggregator table Finished)"
  using assms
  by (auto simp add: tokenizeCells_def defaultAggregator_def classifyCharacter_def
      reduceClass_def transition_def affectTable_def Let_def)

lemma reduce_from_append:
  "reduce_from f a i (xs @ ys) arr =
     (case reduce_from f a i xs arr of
        None \<Rightarrow> None
      | Some a' \<Rightarrow> reduce_from f a' (i + length xs) ys arr)"
  by (induction xs arbitrary: a i) (simp_all split: option.splits bind_splits)

lemma plainNext_unsettled: "unsettledState (plainNext s c)"
  by (simp add: plainNext_def unsettledState_def)

lemma foldl_plainNext_unsettled:
  "unsettledState s \<Longrightarrow> unsettledState (foldl plainNext s cs)"
  by (induction cs arbitrary: s) (simp_all add: plainNext_unsettled)

lemma foldl_plainNext_settled:
  "cs \<noteq> [] \<Longrightarrow> foldl plainNext s cs = Unsettled \<or> foldl plainNext s cs = Unquoted"
proof (induction cs arbitrary: s rule: rev_induct)
  case Nil
  then show ?case by simp
next
  case (snoc c cs)
  show ?case by (simp add: plainNext_def)
qed

lemma reduce_plain:
  assumes "list_all plainChar cs" and "unsettledState s" and "i + length cs < length arr"
  shows "reduce_from tokenizeCells (defaultAggregator (rs @ [cells @ [cur]]) s) i cs arr
       = Some (defaultAggregator (rs @ [cells @ [cur @ concat cs]]) (foldl plainNext s cs))"
  using assms
proof (induction cs arbitrary: s i cur)
  case Nil
  show ?case by simp
next
  case (Cons c cs)
  from Cons.prems have c: "plainChar c" and cs: "list_all plainChar cs"
    and i: "int i \<noteq> int (length arr) - 1" and i': "Suc i + length cs < length arr"
    by auto
  have "reduce_from tokenizeCells
          (defaultAggregator (rs @ [cells @ [(cur @ c)]]) (plainNext s c)) (Suc i) cs arr
       = Some (defaultAggregator (rs @ [cells @ [(cur @ c) @ concat cs]])
           (foldl plainNext (plainNext s c) cs))"
    by (rule Cons.IH [OF cs plainNext_unsettled i'])
  then show ?case
    by (simp add: tokenize_plain [OF c Cons.prems(2) i])
qed

lemma not_surrogate [simp]:
  "\<not> is_low COMMA" "\<not> is_low LF" "\<not> is_high COMMA" "\<not> is_high LF"
  by (simp_all add: is_low_def is_high_def)

lemma Array_from_append:
  "\<not> is_low c \<Longrightarrow> Array_from (a @ c # b) = Array_from a @ Array_from (c # b)"
  by (induction a rule: Array_from.induct) simp_all

lemma Array_from_Cons:
  "\<not> is_high c \<Longrightarrow> Array_from (c # b) = [c] # Array_from b"
  by (cases b) simp_all

lemma concat_Array_from: "concat (Array_from s) = s"
  by (induction s rule: Array_from.induct) simp_all

lemma Array_from_Nil_iff: "Array_from s = [] \<longleftrightarrow> s = []"
  by (induction s rule: Array_from.induct) simp_all

lemma Array_from_subset:
  "c \<in> set (Array_from s) \<Longrightarrow> c \<noteq> [] \<and> set c \<subseteq> set s"
  by (induction s rule: Array_from.induct) (auto split: if_splits)

lemma plainChar_Array_from:
  assumes "safeCell cell"
  shows "list_all plainChar (Array_from cell)"
proof -
  have "plainChar c" if "c \<in> set (Array_from cell)" for c
  proof -
    from that have "c \<noteq> []" and "set c \<subseteq> set cell"
      using Array_from_subset by blast+
    with assms show ?thesis
      by (auto simp add: plainChar_def safeCell_def)
  qed
  then show ?thesis by (simp add: list_all_iff)
qed

lemma join_Cons: "xs \<noteq> [] \<Longrightarrow> join sep (x # xs) = x @ sep @ join sep xs"
  by (cases xs) simp_all

lemma reduce_row:
  assumes "row \<noteq> []" and "list_all safeCell row"
    and "i + length (Array_from (join [COMMA] row)) < length arr"
  shows "reduce_from tokenizeCells (defaultAggregator (rs @ [pre @ [[]]]) Empty) i
            (Array_from (join [COMMA] row)) arr
       = Some (defaultAggregator (rs @ [pre @ row])
            (foldl plainNext Empty (Array_from (last row))))"
  using assms
proof (induction row arbitrary: pre i rule: list_nonempty_induct)
  case (single c)
  then have "list_all plainChar (Array_from c)" and "i + length (Array_from c) < length arr"
    by (simp_all add: plainChar_Array_from)
  then have "reduce_from tokenizeCells (defaultAggregator (rs @ [pre @ [[]]]) Empty) i
      (Array_from c) arr
    = Some (defaultAggregator (rs @ [pre @ [[] @ concat (Array_from c)]])
        (foldl plainNext Empty (Array_from c)))"
    by (intro reduce_plain) (simp_all add: unsettledState_def)
  then show ?case by (simp add: concat_Array_from)
next
  case (cons c row)
  let ?cs = "Array_from c" and ?rest = "Array_from (join [COMMA] row)"
  have split: "Array_from (join [COMMA] (c # row)) = ?cs @ [COMMA] # ?rest"
    using cons.hyps by (simp add: join_Cons Array_from_append Array_from_Cons)
  from cons.prems have len: "i + length ?cs + 1 + length ?rest < length arr"
    by (simp add: split)
  have plain: "list_all plainChar ?cs"
    using cons.prems by (simp add: plainChar_Array_from)
  have "reduce_from tokenizeCells (defaultAggregator (rs @ [pre @ [[]]]) Empty) i ?cs arr
    = Some (defaultAggregator (rs @ [pre @ [[] @ concat ?cs]])
        (foldl plainNext Empty ?cs))"
    using plain len by (intro reduce_plain) (simp_all add: unsettledState_def)
  then have first: "reduce_from tokenizeCells (defaultAggregator (rs @ [pre @ [[]]]) Empty) i
      ?cs arr = Some (defaultAggregator (rs @ [pre @ [c]]) (foldl plainNext Empty ?cs))"
    by (simp add: concat_Array_from)
  have "unsettledState (foldl plainNext Empty ?cs)"
    by (rule foldl_plainNext_unsettled) (simp add: unsettledState_def)
  moreover have "int (i + length ?cs) \<noteq> int (length arr) - 1"
    using len by simp
  ultimately have sep: "tokenizeCells
      (defaultAggregator (rs @ [pre @ [c]]) (foldl plainNext Empty ?cs)) [COMMA]
      (i + length ?cs) arr
    = Some (defaultAggregator (rs @ [(pre @ [c]) @ [[]]]) Empty)"
    by (rule tokenize_separator)
  have "reduce_from tokenizeCells (defaultAggregator (rs @ [(pre @ [c]) @ [[]]]) Empty)
      (Suc (i + length ?cs)) ?rest arr
    = Some (defaultAggregator (rs @ [(pre @ [c]) @ row])
        (foldl plainNext Empty (Array_from (last row))))"
    using cons.prems len by (intro cons.IH) simp_all
  then show ?case
    using cons.hyps by (simp add: split reduce_from_append first sep)
qed

lemma reduce_line:
  assumes "row \<noteq> []" and "list_all safeCell row"
    and "length row = 1 \<or> last row \<noteq> []"
    and "i + length (Array_from (join [COMMA] row)) + 1 < length arr"
  shows "reduce_from tokenizeCells (defaultAggregator (rs @ [[[]]]) Empty) i
            (Array_from (join [COMMA] row) @ [[LF]]) arr
       = Some (defaultAggregator (rs @ [row] @ [[[]]]) Empty)"
proof -
  let ?cs = "Array_from (join [COMMA] row)"
  have row: "reduce_from tokenizeCells (defaultAggregator (rs @ [[] @ [[]]]) Empty) i ?cs arr
       = Some (defaultAggregator (rs @ [[] @ row])
            (foldl plainNext Empty (Array_from (last row))))"
    using assms by (intro reduce_row) simp_all
  have i: "int (i + length ?cs) \<noteq> int (length arr) - 1"
    using assms(4) by simp
  show ?thesis
  proof (cases "last row = []")
    case True
    with assms(1,3) have "row = [[]]"
      by (cases row) auto
    then show ?thesis
      using tokenize_linefeed_sole [of i arr rs "[]"] assms(4) by simp
  next
    case False
    then have "Array_from (last row) \<noteq> []"
      by (simp add: Array_from_Nil_iff)
    then have "foldl plainNext Empty (Array_from (last row)) = Unsettled
        \<or> foldl plainNext Empty (Array_from (last row)) = Unquoted"
      by (rule foldl_plainNext_settled)
    then have "tokenizeCells
        (defaultAggregator (rs @ [row]) (foldl plainNext Empty (Array_from (last row))))
        [LF] (i + length ?cs) arr
      = Some (defaultAggregator ((rs @ [row]) @ [[[]]]) Empty)"
      using i by (rule tokenize_linefeed)
    then show ?thesis
      using row by (simp add: reduce_from_append)
  qed
qed

lemma reduce_lines:
  assumes "list_all (\<lambda>row. row \<noteq> [] \<and> list_all safeCell row
              \<and> (length row = 1 \<or> last row \<noteq> [])) table"
    and "i + length (concat (map lineChars table)) < length arr"
  shows "reduce_from tokenizeCells (defaultAggregator (rs @ [[[]]]) Empty) i
            (concat (map lineChars table)) arr
       = Some (defaultAggregator (rs @ table @ [[[]]]) Empty)"
  using assms
proof (induction table arbitrary: rs i)
  case Nil
  show ?case by simp
next
  case (Cons row table)
  from Cons.prems have row: "row \<noteq> []" "list_all safeCell row"
    "length row = 1 \<or> last row \<noteq> []"
    and len: "i + length (Array_from (join [COMMA] row)) + 1 < length arr"
    by (simp_all add: lineChars_def)
  from row len have first: "reduce_from tokenizeCells (defaultAggregator (rs @ [[[]]]) Empty) i
      (lineChars row) arr = Some (defaultAggregator (rs @ [row] @ [[[]]]) Empty)"
    unfolding lineChars_def by (rule reduce_line)
  have "reduce_from tokenizeCells (defaultAggregator ((rs @ [row]) @ [[[]]]) Empty)
      (i + length (lineChars row)) (concat (map lineChars table)) arr
    = Some (defaultAggregator ((rs @ [row]) @ table @ [[[]]]) Empty)"
    using Cons.prems by (intro Cons.IH) (simp_all add: add.assoc)
  then show ?case
    using first by (simp add: reduce_from_append)
qed

lemma tokenize_table:
  assumes "list_all (\<lambda>row. row \<noteq> [] \<and> list_all safeCell row
              \<and> (length row = 1 \<or> last row \<noteq> [])) (init @ [row])"
    and "last row \<noteq> []"
  shows "reduce tokenizeCells (defaultAggregator [[[]]] Empty)
           (concat (map lineChars (init @ [row])))
       = Some (defaultAggregator (init @ [row]) Finished)"
proof -
  let ?cs = "Array_from (join [COMMA] row)"
  let ?arr = "concat (map lineChars init) @ ?cs @ [[LF]]"
  have arr: "concat (map lineChars (init @ [row])) = ?arr"
    by (simp add: lineChars_def)
  have all: "list_all (\<lambda>row. row \<noteq> [] \<and> list_all safeCell row
              \<and> (length row = 1 \<or> last row \<noteq> [])) init"
    and row: "row \<noteq> []" "list_all safeCell row"
    using assms(1) by simp_all
  have "reduce_from tokenizeCells (defaultAggregator ([] @ [[[]]]) Empty) 0
      (concat (map lineChars init)) ?arr
    = Some (defaultAggregator ([] @ init @ [[[]]]) Empty)"
    using all by (intro reduce_lines) simp_all
  then have first: "reduce_from tokenizeCells (defaultAggregator [[[]]] Empty) 0
      (concat (map lineChars init)) ?arr
    = Some (defaultAggregator (init @ [[] @ [[]]]) Empty)"
    by simp
  have second: "reduce_from tokenizeCells (defaultAggregator (init @ [[] @ [[]]]) Empty)
      (0 + length (concat (map lineChars init))) ?cs ?arr
    = Some (defaultAggregator (init @ [[] @ row])
        (foldl plainNext Empty (Array_from (last row))))"
    using row by (intro reduce_row) simp_all
  have "Array_from (last row) \<noteq> []"
    using assms(2) by (simp add: Array_from_Nil_iff)
  then have "foldl plainNext Empty (Array_from (last row)) = Unsettled
      \<or> foldl plainNext Empty (Array_from (last row)) = Unquoted"
    by (rule foldl_plainNext_settled)
  moreover have "int (length (concat (map lineChars init)) + length ?cs)
      = int (length ?arr) - 1"
    by simp
  ultimately have third: "tokenizeCells
      (defaultAggregator (init @ [row]) (foldl plainNext Empty (Array_from (last row))))
      [LF] (length (concat (map lineChars init)) + length ?cs) ?arr
    = Some (defaultAggregator (init @ [row]) Finished)"
    by (rule tokenize_linefeed_last)
  have "reduce_from tokenizeCells (defaultAggregator [[[]]] Empty) 0 ?arr ?arr
    = Some (defaultAggregator (init @ [row]) Finished)"
    using first second third by (simp add: reduce_from_append)
  then show ?thesis
    unfolding reduce_def arr .
qed

lemma set_join: "set (join sep xs) \<subseteq> set sep \<union> (\<Union>x\<in>set xs. set x)"
  by (induction sep xs rule: join.induct) auto

lemma join_snoc: "xs \<noteq> [] \<Longrightarrow> join sep (xs @ [x]) = join sep xs @ sep @ x"
  by (induction xs rule: list_nonempty_induct) (simp_all add: join_Cons)

lemma join_ends: "xs \<noteq> [] \<Longrightarrow> \<exists>p. join sep xs = p @ last xs"
proof (cases xs rule: rev_cases)
  case (snoc ys y)
  show ?thesis
  proof (cases "ys = []")
    case True
    with snoc show ?thesis by simp
  next
    case False
    then have "join sep xs = (join sep ys @ sep) @ last xs"
      using snoc by (simp add: join_snoc)
    then show ?thesis by blast
  qed
qed simp

lemma Array_from_lines:
  "table \<noteq> [] \<Longrightarrow>
   Array_from (join [LF] (map (join [COMMA]) table) @ [LF]) = concat (map lineChars table)"
proof (induction table rule: list_nonempty_induct)
  case (single row)
  show ?case
    using Array_from_append [of LF "join [COMMA] row" "[]"] by (simp add: lineChars_def)
next
  case (cons row table)
  have "Array_from ((join [COMMA] row @ LF # join [LF] (map (join [COMMA]) table)) @ [LF])
      = Array_from (join [COMMA] row)
        @ [LF] # Array_from (join [LF] (map (join [COMMA]) table) @ [LF])"
    using Array_from_append [of LF "join [COMMA] row"
        "join [LF] (map (join [COMMA]) table) @ [LF]"]
    by (simp add: Array_from_Cons)
  then show ?case
    using cons by (simp add: join_Cons lineChars_def)
qed

lemma strictLinebreakGroups_id: "CR \<notin> set s \<Longrightarrow> strictLinebreakGroups s = s"
  by (induction s rule: strictLinebreakGroups.induct) simp_all

lemma preprocess_table:
  assumes "table \<noteq> []" and "list_all (\<lambda>row. row \<noteq> [] \<and> list_all safeCell row) table"
    and "last (last table) \<noteq> []"
  shows "preprocess (join [LF] (map (join [COMMA]) table)) True True
       = join [LF] (map (join [COMMA]) table) @ [LF]"
proof -
  let ?text = "join [LF] (map (join [COMMA]) table)"
  have cells: "set ?text \<subseteq> {LF, COMMA} \<union> (\<Union>row\<in>set table. \<Union>cell\<in>set row. set cell)"
    using set_join [of "[LF]" "map (join [COMMA]) table"] set_join [of "[COMMA]"]
    by fastforce
  have safe: "safeCell cell" if "row \<in> set table" "cell \<in> set row" for row cell
    using assms(2) that by (auto simp add: list_all_iff)
  have "CR \<notin> set ?text" and nul: "NUL \<notin> set ?text"
    using cells safe by (auto simp add: safeCell_def)
  then have strict: "strictLinebreakGroups ?text = ?text"
    by (simp add: strictLinebreakGroups_id)
  have rowne: "last table \<noteq> []" and "last table \<in> set table"
    using assms(1,2) by (auto simp add: list_all_iff)
  then have "safeCell (last (last table))"
    using safe by simp
  then have lf: "LF \<notin> set (last (last table))"
    by (simp add: safeCell_def)
  obtain p where "?text = p @ last (map (join [COMMA]) table)"
    using join_ends [of "map (join [COMMA]) table" "[LF]"] assms(1) by auto
  moreover obtain p' where "join [COMMA] (last table) = p' @ last (last table)"
    using join_ends [OF rowne, of "[COMMA]"] by auto
  ultimately have "?text = (p @ p') @ last (last table)"
    using assms(1) by (simp add: last_map)
  then have "last ?text = last (last (last table))" and "?text \<noteq> []"
    using assms(3) by (metis last_appendR, metis append_is_Nil_conv)
  then have "last ?text \<noteq> LF"
    using lf assms(3) by (metis last_in_set)
  then have "\<not> suffix [LF] ?text"
    by (auto simp add: suffix_def)
  then show ?thesis
    using strict nul by (auto simp add: preprocess_def Let_def filter_id_conv)
qed

lemma surroundedQuotes_None:
  assumes "DQUOTE \<notin> set cell"
  shows "surroundedQuotes [DQUOTE] cell = None"
proof -
  have "take 1 (drop k cell) \<noteq> [DQUOTE]" for k
  proof
    assume "take 1 (drop k cell) = [DQUOTE]"
    then have "DQUOTE \<in> set (take 1 (drop k cell))" by simp
    then have "DQUOTE \<in> set cell"
      by (meson in_set_dropD in_set_takeD)
    with assms show False by simp
  qed
  then have none: "find (\<lambda>(k, j). A k j \<and> take (length [DQUOTE]) (drop k cell) = [DQUOTE] \<and> B k j)
      candidates = None" for A B candidates
    by (auto simp add: find_None_iff)
  show ?thesis
    unfolding surroundedQuotes_def Let_def by (simp only: none option.simps)
qed

lemma parseString_safe: "safeCell cell \<Longrightarrow> parseString [DQUOTE] b cell = cell"
  by (simp add: parseString_def surroundedQuotes_None safeCell_def space_def)

lemma parse_table:
  assumes "table \<noteq> []"
    and "list_all (\<lambda>row. row \<noteq> [] \<and> list_all safeCell row
              \<and> (length row = 1 \<or> last row \<noteq> [])) table"
    and "last (last table) \<noteq> []"
  shows "map_option (\<lambda>p. (header p, rows p))
           (parse (join [LF] (map (join [COMMA]) table)) default_parse_options)
       = Some (hd table, tl table)"
proof -
  from assms(1) obtain init row where table: "table = init @ [row]"
    by (cases table rule: rev_cases) auto
  have weaker: "list_all (\<lambda>row. row \<noteq> [] \<and> list_all safeCell row) table"
    using assms(2) by (simp add: list_all_iff)
  have opts: "opt_forceLineFeedAfterCarriageReturn default_parse_options"
    "opt_ignoreLinefeedBeforeEOF default_parse_options"
    "opt_ignoreSpacesAfterQuotedString default_parse_options"
    "parse_quote (opt_quote default_parse_options) = [DQUOTE]"
    by (simp_all add: default_parse_options_def parse_quote_def validQuotesAndSeparators_def)
  have "tokenize (join [LF] (map (join [COMMA]) table)) default_parse_options
      = reduce tokenizeCells (defaultAggregator [[[]]] Empty) (concat (map lineChars table))"
    using preprocess_table [OF assms(1) weaker assms(3)] Array_from_lines [OF assms(1)] opts
    by (simp add: tokenize_def initialAggregator_default)
  also have "\<dots> = Some (defaultAggregator table Finished)"
    using tokenize_table [of init row] assms(2,3) unfolding table by simp
  finally have tok: "tokenize (join [LF] (map (join [COMMA]) table)) default_parse_options
      = Some (defaultAggregator table Finished)" .
  have "map (parseSubArrays [DQUOTE] True) table = table"
    using weaker by (auto simp add: parseSubArrays_def list_all_iff parseString_safe map_idI)
  then show ?thesis
    using assms(1) tok opts
    by (cases table) (simp_all add: parse_def toOutput_def defaultAggregator_def)
qed

lemma quoteString_safe: "safeCell cell \<Longrightarrow> quoteString [DQUOTE] [COMMA] cell = cell"
  by (simp add: quoteString_def string_includes_sublist sublist_single safeCell_def)

lemma toCSVLine_safe:
  assumes "list_all safeCell row"
  shows "toCSVLine [DQUOTE] [COMMA] (int (length row)) row = join [COMMA] row"
proof -
  have "map (\<lambda>index. if index < length row then row ! index else []) [0..<length row] = row"
    by (rule nth_equalityI) simp_all
  moreover have "map (quoteString [DQUOTE] [COMMA]) row = row"
    using assms by (auto simp add: list_all_iff quoteString_safe map_idI)
  ultimately show ?thesis
    by (simp add: toCSVLine_def)
qed

lemma readRow_Shared:
  "map (\<lambda>row. f (readRow st row)) (map Shared addrs) = map f (map st addrs)"
  by (induction addrs) simp_all

lemma foldl_max_same:
  "list_all (\<lambda>x. x = n) xs \<Longrightarrow> xs \<noteq> [] \<Longrightarrow> foldl max (m::nat) xs = max m n"
proof (induction xs arbitrary: m)
  case Nil
  then show ?case by simp
next
  case (Cons x xs)
  then show ?case
    by (cases "xs = []") (simp_all add: max.assoc)
qed

lemma list_all_intro: "(\<And>x. x \<in> set xs \<Longrightarrow> P x) \<Longrightarrow> list_all P xs"
  by (simp add: list_all_iff)

lemma roundTripTable_ends:
  "roundTripTable table \<Longrightarrow> table \<noteq> [] \<and> last (last table) \<noteq> []"
  unfolding roundTripTable_def by blast

lemma roundTripTable_row:
  "roundTripTable table \<Longrightarrow> row \<in> set table \<Longrightarrow>
   row \<noteq> [] \<and> length row = length (hd table) \<and> list_all safeCell row
   \<and> (length row = 1 \<or> last row \<noteq> [])"
  unfolding roundTripTable_def list_all_iff by blast

lemma emptyAt_last:
  assumes "row \<noteq> []"
  shows "emptyAt row (int (length row) - 1) \<longleftrightarrow> last row = []"
proof -
  from assms have "0 < length row" by simp
  then have "nat (int (length row) - 1) = length row - 1"
    and "0 \<le> int (length row) - 1" and "int (length row) - 1 < int (length row)"
    by simp_all
  then show ?thesis
    using assms by (simp add: emptyAt_def last_conv_nth)
qed

lemma not_list_all_last: "xs \<noteq> [] \<Longrightarrow> \<not> P (last xs) \<Longrightarrow> \<not> list_all P xs"
  by (metis last_in_set list_all_iff)

lemma stringify_table:
  assumes rows: "map st addrs = table" and table: "roundTripTable table"
  shows "stringify st (RowMajor addrs) default_stringify_options
       = Some (join [LF] (map (join [COMMA]) table), st)"
proof -
  let ?n = "length (hd table)"
  let ?allRows = "map Shared addrs"
  from table have ne: "table \<noteq> []" and lastcell: "last (last table) \<noteq> []"
    using roundTripTable_ends by blast+
  from ne rows obtain a as where addrs: "addrs = a # as"
    by (cases addrs) auto
  then have input: "inputRows st (RowMajor addrs) = Some ?allRows"
    by (simp add: inputRows_def)
  have allNe: "?allRows \<noteq> []"
    using addrs by simp
  have "readRow st (last ?allRows) = last (map st addrs)"
    using addrs by (simp add: last_map)
  then have lastRow: "readRow st (last ?allRows) = last table"
    by (simp only: rows)
  have "last table \<in> set table"
    using ne by simp
  then have lastLen: "length (last table) = ?n" and lastNe: "last table \<noteq> []"
    using roundTripTable_row [OF table] by blast+
  have "\<not> list_all (\<lambda>string. length string = 0) (last table)"
    using lastNe lastcell by (intro not_list_all_last) simp_all
  then have "\<not> (length ?allRows > 0
      \<and> list_all (\<lambda>string. length string = 0) (readRow st (last ?allRows)))"
    unfolding lastRow by simp
  then have pop: "popEmptyRows st ?allRows = ?allRows"
    by (subst popEmptyRows.simps) (simp only: if_False)
  have "map (\<lambda>row. length (readRow st row)) ?allRows = map length (map st addrs)"
    by (rule readRow_Shared)
  then have lengths: "map (\<lambda>row. length (readRow st row)) ?allRows = map length table"
    by (simp only: rows)
  have "list_all (\<lambda>x. x = ?n) (map length table)"
  proof (rule list_all_intro)
    fix x assume "x \<in> set (map length table)"
    then obtain row where "row \<in> set table" "x = length row" by auto
    then show "x = ?n" using roundTripTable_row [OF table] by blast
  qed
  then have "foldl max 0 (map length table) = max 0 ?n"
    using ne by (intro foldl_max_same) simp_all
  with lengths have maxLen: "maxLength st ?allRows = int ?n"
    by (simp add: maxLength_def)
  have "\<not> emptyAt (last table) (int (length (last table)) - 1)"
    using lastcell lastNe by (simp add: emptyAt_last)
  then have "\<not> emptyAt (readRow st (last ?allRows)) (int ?n - 1)"
    unfolding lastRow lastLen .
  with allNe have "\<not> list_all (\<lambda>row. emptyAt (readRow st row) (int ?n - 1)) ?allRows"
    by (rule not_list_all_last)
  then have "\<not> (int ?n \<ge> 0
      \<and> list_all (\<lambda>row. emptyAt (readRow st row) (int ?n - 1)) ?allRows)"
    by simp
  then have trim: "trimColumns (int ?n) ?allRows st = (int ?n, ?allRows, st)"
    by (subst trimColumns.simps) (simp only: if_False)
  have "map (\<lambda>row. toCSVLine [DQUOTE] [COMMA] (int ?n) (readRow st row)) ?allRows
      = map (toCSVLine [DQUOTE] [COMMA] (int ?n)) (map st addrs)"
    by (rule readRow_Shared)
  also have "\<dots> = map (toCSVLine [DQUOTE] [COMMA] (int ?n)) table"
    by (simp only: rows)
  also have "\<dots> = map (join [COMMA]) table"
  proof (rule map_cong [OF refl])
    fix row assume "row \<in> set table"
    then have "length row = ?n" and "list_all safeCell row"
      using roundTripTable_row [OF table] by blast+
    then show "toCSVLine [DQUOTE] [COMMA] (int ?n) row = join [COMMA] row"
      using toCSVLine_safe [of row] by simp
  qed
  finally have lines:
    "map (\<lambda>row. toCSVLine [DQUOTE] [COMMA] (int ?n) (readRow st row)) ?allRows
      = map (join [COMMA]) table" .
  have opts: "stringify_quote (sopt_quote default_stringify_options) = [DQUOTE]"
    "stringify_separator (sopt_separator default_stringify_options) = [COMMA]"
    "stringify_lineEnd (sopt_lineEnd default_stringify_options) = [LF]"
    "sopt_trimEmpty default_stringify_options = True"
    "sopt_lineEndBeforeEOF default_stringify_options = False"
    by (simp_all add: default_stringify_options_def stringify_quote_def
        stringify_separator_def stringify_lineEnd_def validQuotesAndSeparators_def)
  show ?thesis
    by (simp only: stringify_def Let_def input opts pop maxLen trim lines bind.simps
        if_True if_False prod.case append_Nil2)
qed

text \<open>
  C3, amended. Take a table with at least one row, all rows of the same length, at least
  one cell in a row, no double quote, comma, line feed, carriage return or NUL in any
  cell, the last cell of every row not empty unless the rows have one cell only, and the
  last cell of the last row not empty. Let its rows lie in a store at the addresses
  \<open>addrs\<close>, in any way. Under the default options \<open>stringify\<close> writes a text for it and
  leaves the store as it is, and \<open>parse\<close> of that text has the first row as header and
  the other rows as rows.
\<close>

theorem round_trip:
  assumes "map st addrs = table" and "roundTripTable table"
  shows "\<exists>text. stringify st (RowMajor addrs) default_stringify_options = Some (text, st)
             \<and> map_option (\<lambda>p. (header p, rows p)) (parse text default_parse_options)
                 = Some (hd table, tl table)"
proof -
  from assms(2) have "table \<noteq> []" and "last (last table) \<noteq> []"
    using roundTripTable_ends by blast+
  moreover have "list_all (\<lambda>row. row \<noteq> [] \<and> list_all safeCell row
              \<and> (length row = 1 \<or> last row \<noteq> [])) table"
    by (rule list_all_intro) (use roundTripTable_row [OF assms(2)] in blast)
  ultimately have "map_option (\<lambda>p. (header p, rows p))
           (parse (join [LF] (map (join [COMMA]) table)) default_parse_options)
       = Some (hd table, tl table)"
    by (intro parse_table)
  with stringify_table [OF assms] show ?thesis
    by blast
qed

theorem round_trip_witness:
  "map (store_of [[js ''a'', js ''b c''], [[], js ''e'']]) [0, 1]
     = [[js ''a'', js ''b c''], [[], js ''e'']]
   \<and> roundTripTable [[js ''a'', js ''b c''], [[], js ''e'']]
   \<and> (\<exists>text. stringify (store_of [[js ''a'', js ''b c''], [[], js ''e'']]) (RowMajor [0, 1])
                default_stringify_options
              = Some (text, store_of [[js ''a'', js ''b c''], [[], js ''e'']])
          \<and> map_option (\<lambda>p. (header p, rows p)) (parse text default_parse_options)
              = Some (hd [[js ''a'', js ''b c''], [[], js ''e'']],
                      tl [[js ''a'', js ''b c''], [[], js ''e'']]))"
proof -
  have s: "map (store_of [[js ''a'', js ''b c''], [[], js ''e'']]) [0, 1]
     = [[js ''a'', js ''b c''], [[], js ''e'']]"
    by (simp add: store_of_def)
  have t: "roundTripTable [[js ''a'', js ''b c''], [[], js ''e'']]"
    by (simp add: roundTripTable_def safeCell_def js_def)
  show ?thesis
    using s t round_trip [OF s t] by (intro conjI)
qed

end
